theory Spec2Isabelle
  imports Complex_Main
begin

section \<open>Data model (types.ts, constants.ts)\<close>

datatype GameMode = CLASSIC | TIME

text \<open>
  \<^verbatim>\<open>interface BlockData { id; value; row; col; isSelected }\<close>.
  The fields \<open>id\<close> and \<open>value\<close> carry the suffix \<open>_b\<close>, since the bare names
  are taken in HOL.  A cell of the grid is \<open>BlockData | null\<close>: an option.
\<close>

record BlockData =
  id_b :: string
  value_b :: int
  row :: nat
  col :: nat
  isSelected :: bool

type_synonym cell = "BlockData option"
type_synonym grid = "cell list list"

definition GRID_ROWS :: nat where "GRID_ROWS = 10"
definition GRID_COLS :: nat where "GRID_COLS = 6"
definition INITIAL_ROWS :: nat where "INITIAL_ROWS = 4"
definition TIME_LIMIT :: int where "TIME_LIMIT = 10"
definition TARGET_MIN :: int where "TARGET_MIN = 10"
definition TARGET_MAX :: int where "TARGET_MAX = 25"

text \<open>The React state of \<open>App\<close> (the \<open>useState\<close> cells that the game logic reads or writes).\<close>

record GameState =
  mode :: "GameMode option"
  grid :: grid
  score :: int
  target :: int
  selectedIds :: "string list"
  isGameOver :: bool
  timeLeft :: int
  isPaused :: bool
  isShaking :: bool
  currentSum :: int

section \<open>Value source\<close>

text \<open>
  \<open>Math.random()\<close> is the only input from outside.  A call of it is a real \<open>u\<close> with
  \<open>0 \<le> u < 1\<close>, handed to the model as an argument.  \<open>generateId\<close> turns such a
  number into a base-36 string; the model takes the resulting string as drawn.  A
  \<open>draw\<close> is what one new block consumes: the id string and the random number behind
  its value.
\<close>

type_synonym draw = "string \<times> real"

definition getRandomValue :: "real \<Rightarrow> int" where
  "getRandomValue u = \<lfloor>u * 9\<rfloor> + 1"

definition getRandomTarget :: "real \<Rightarrow> int" where
  "getRandomTarget u = \<lfloor>u * of_int (TARGET_MAX - TARGET_MIN + 1)\<rfloor> + TARGET_MIN"

definition newBlock :: "draw \<Rightarrow> nat \<Rightarrow> nat \<Rightarrow> BlockData" where
  "newBlock d r c =
     \<lparr>id_b = fst d, value_b = getRandomValue (snd d), row = r, col = c, isSelected = False\<rparr>"

section \<open>Grid operations\<close>

text \<open>
  \<open>newGrid[r][c] = v\<close> on a copy of the grid.  Every grid the program builds comes from
  \<open>initGame\<close> and has \<open>GRID_ROWS\<close> rows of \<open>GRID_COLS\<close> cells (\<open>wf_grid\<close>); the theorems
  below are about such grids, where every index the loops use is in range.
\<close>

definition setCell :: "grid \<Rightarrow> nat \<Rightarrow> nat \<Rightarrow> cell \<Rightarrow> grid" where
  "setCell g r c v = g[r := (g ! r)[c := v]]"

definition inGrid :: "grid \<Rightarrow> nat \<Rightarrow> nat \<Rightarrow> bool" where
  "inGrid g r c = (r < length g \<and> c < length (g ! r))"

definition wf_grid :: "grid \<Rightarrow> bool" where
  "wf_grid g = (length g = GRID_ROWS \<and> list_all (\<lambda>rw. length rw = GRID_COLS) g)"

subsection \<open>initGame\<close>

definition emptyGrid :: grid where
  "emptyGrid = replicate GRID_ROWS (replicate GRID_COLS None)"

text \<open>The inner loop \<open>for (c = 0; c < GRID_COLS; c++) newGrid[r][c] = {...}\<close>.\<close>

definition fillRow :: "(nat \<Rightarrow> draw) \<Rightarrow> nat \<Rightarrow> grid \<Rightarrow> grid" where
  "fillRow src r g =
     foldl (\<lambda>g' c. setCell g' r c (Some (newBlock (src c) r c))) g [0..<GRID_COLS]"

text \<open>The outer loop \<open>for (r = GRID_ROWS - 1; r >= GRID_ROWS - INITIAL_ROWS; r--)\<close>.\<close>

definition initGrid :: "(nat \<Rightarrow> nat \<Rightarrow> draw) \<Rightarrow> grid" where
  "initGrid src =
     foldl (\<lambda>g' r. fillRow (src r) r g') emptyGrid (rev [GRID_ROWS - INITIAL_ROWS..<GRID_ROWS])"

definition initGame :: "GameState \<Rightarrow> GameMode \<Rightarrow> (nat \<Rightarrow> nat \<Rightarrow> draw) \<Rightarrow> real \<Rightarrow> GameState" where
  "initGame st selectedMode src u =
     st\<lparr>grid := initGrid src, score := 0, target := getRandomTarget u, selectedIds := [],
        isGameOver := False, mode := Some selectedMode, timeLeft := TIME_LIMIT,
        isPaused := False\<rparr>"

subsection \<open>addRow\<close>

text \<open>\<open>prevGrid[0].some(cell => cell !== null)\<close>\<close>

definition topRowOccupied :: "grid \<Rightarrow> bool" where
  "topRowOccupied g = list_ex (\<lambda>cell. cell \<noteq> None) (g ! 0)"

text \<open>
  \<open>newGrid[r][c] = newGrid[r + 1][c]; if (newGrid[r][c]) newGrid[r][c] = {...newGrid[r][c], row: r}\<close>
\<close>

definition shiftCell :: "grid \<Rightarrow> nat \<Rightarrow> nat \<Rightarrow> grid" where
  "shiftCell g r c = setCell g r c (map_option (\<lambda>b. b\<lparr>row := r\<rparr>) (g ! (r + 1) ! c))"

definition shiftUp :: "grid \<Rightarrow> grid" where
  "shiftUp g =
     foldl (\<lambda>g' r. foldl (\<lambda>g'' c. shiftCell g'' r c) g' [0..<GRID_COLS]) g [0..<GRID_ROWS - 1]"

definition addRowGrid :: "(nat \<Rightarrow> draw) \<Rightarrow> grid \<Rightarrow> grid" where
  "addRowGrid src g = fillRow src (GRID_ROWS - 1) (shiftUp g)"

text \<open>
  \<open>addRow\<close>: the updater passed to \<open>setGrid\<close> (with \<open>setIsGameOver(true)\<close> on overflow),
  then \<open>setTimeLeft(TIME_LIMIT)\<close> in time mode.
\<close>

definition addRow :: "GameState \<Rightarrow> (nat \<Rightarrow> draw) \<Rightarrow> GameState" where
  "addRow st src =
     (let st1 = (if topRowOccupied (grid st) then st\<lparr>isGameOver := True\<rparr>
                 else st\<lparr>grid := addRowGrid src (grid st)\<rparr>)
      in if mode st = Some TIME then st1\<lparr>timeLeft := TIME_LIMIT\<rparr> else st1)"

subsection \<open>handleBlockClick\<close>

definition handleBlockClick :: "GameState \<Rightarrow> string \<Rightarrow> GameState" where
  "handleBlockClick st i =
     (if isGameOver st \<or> isPaused st then st
      else st\<lparr>selectedIds :=
                (if i \<in> set (selectedIds st) then filter (\<lambda>j. j \<noteq> i) (selectedIds st)
                 else selectedIds st @ [i])\<rparr>)"

subsection \<open>applyGravity\<close>

text \<open>
  The inner loop of \<open>applyGravity\<close> for one column \<open>c\<close>:
  \<^verbatim>\<open>for (let r = GRID_ROWS - 1; r > 0; r--) {
    if (newGrid[r][c] === null && newGrid[r - 1][c] !== null) {
      newGrid[r][c] = { ...newGrid[r - 1][c]!, row: r };
      newGrid[r - 1][c] = null;
      changed = true;
      r = GRID_ROWS;
    }
  }\<close>
  After \<open>r = GRID_ROWS\<close> the loop's \<open>r--\<close> runs, so the scan restarts at \<open>GRID_ROWS - 1\<close>.
  Where the grid has no cell \<open>(r, c)\<close> or \<open>(r - 1, c)\<close> JavaScript would throw or read
  \<open>undefined\<close>; the model stops the loop there.  A grid of the program always has
  these cells, and the theorems are about such grids.
\<close>

function gravityRows :: "grid \<Rightarrow> nat \<Rightarrow> nat \<Rightarrow> bool \<Rightarrow> grid \<times> bool" where
  "gravityRows g c r changed =
     (if 0 < r \<and> inGrid g r c \<and> inGrid g (r - 1) c then
        (if g ! r ! c = None \<and> g ! (r - 1) ! c \<noteq> None then
           gravityRows
             (setCell (setCell g r c (Some ((the (g ! (r - 1) ! c))\<lparr>row := r\<rparr>))) (r - 1) c None)
             c (GRID_ROWS - 1) True
         else gravityRows g c (r - 1) changed)
      else (g, changed))"
  by pat_completeness auto

text \<open>The blocks of a column weigh their height: a fall makes the column lighter.\<close>

fun weight :: "cell list \<Rightarrow> nat" where
  "weight [] = 0"
| "weight (x # xs) = (if x = None then 0 else Suc (length xs)) + weight xs"

definition column :: "grid \<Rightarrow> nat \<Rightarrow> cell list" where
  "column g c = map (\<lambda>rw. rw ! c) g"

text \<open>
  \<open>applyGravity\<close>: the outer loop over the columns, on a copy of the grid, with
  \<open>changed\<close> starting false.  The result is the pair \<open>{ newGrid, changed }\<close>.
\<close>

definition applyGravity :: "grid \<Rightarrow> grid \<times> bool" where
  "applyGravity currentGrid =
     foldl (\<lambda>(g, changed) c. gravityRows g c (GRID_ROWS - 1) changed) (currentGrid, False)
       [0..<GRID_COLS]"

subsection \<open>The sum effect\<close>

text \<open>
  \<open>grid.forEach(row => row.forEach(block => ...))\<close> visits the cells row by row;
  \<open>blocks\<close> are the non-null ones in that order, and \<open>selectedBlocks\<close> those whose id
  is in \<open>selectedIds\<close>.
\<close>

definition blocks :: "grid \<Rightarrow> BlockData list" where
  "blocks g = map the (filter (\<lambda>cell. cell \<noteq> None) (concat g))"

definition selectedBlocks :: "grid \<Rightarrow> string list \<Rightarrow> BlockData list" where
  "selectedBlocks g sel = filter (\<lambda>b. id_b b \<in> set sel) (blocks g)"

text \<open>\<open>selectedBlocks.reduce((acc, b) => acc + b.value, 0)\<close>\<close>

definition selSum :: "grid \<Rightarrow> string list \<Rightarrow> int" where
  "selSum g sel = foldl (\<lambda>acc b. acc + value_b b) 0 (selectedBlocks g sel)"

text \<open>\<open>row.map(block => block && selectedIds.includes(block.id) ? null : block)\<close>\<close>

definition removeCell :: "string list \<Rightarrow> cell \<Rightarrow> cell" where
  "removeCell sel block =
     (case block of None \<Rightarrow> None
      | Some b \<Rightarrow> if id_b b \<in> set sel then None else Some b)"

definition removeSelected :: "grid \<Rightarrow> string list \<Rightarrow> grid" where
  "removeSelected g sel = map (map (removeCell sel)) g"

text \<open>
  The state updates of the match branch before \<open>addRow\<close>: \<open>setScore\<close>, \<open>setTarget\<close>,
  \<open>setGrid\<close> (removal, then gravity) and \<open>setSelectedIds([])\<close>.
\<close>

definition matchUpdate :: "GameState \<Rightarrow> real \<Rightarrow> GameState" where
  "matchUpdate st u =
     st\<lparr>score := score st + int (length (selectedBlocks (grid st) (selectedIds st))) * 10,
        target := getRandomTarget u,
        grid := fst (applyGravity (removeSelected (grid st) (selectedIds st))),
        selectedIds := []\<rparr>"

text \<open>
  The effect with the dependencies \<open>[selectedIds, target, grid, mode, ...]\<close>.  React
  applies the queued updates of one run of the effect together, in the order of the
  calls, so the updater that \<open>addRow\<close> queues sees the grid left by the match.  The second
  component is the timer the run schedules: \<open>Some d\<close> for
  \<open>setTimeout(..., d)\<close> with the callback \<open>overshootTimeout\<close>, \<open>None\<close> for no timer.
\<close>

definition sumEffect :: "GameState \<Rightarrow> real \<Rightarrow> (nat \<Rightarrow> draw) \<Rightarrow> GameState \<times> nat option" where
  "sumEffect st u src =
     (let sum = selSum (grid st) (selectedIds st);
          st0 = st\<lparr>currentSum := sum\<rparr>
      in if sum = 0 then (st0, None)
         else if sum = target st then
           (if mode st = Some CLASSIC then addRow (matchUpdate st0 u) src
            else matchUpdate st0 u, None)
         else if sum > target st then (st0\<lparr>isShaking := True\<rparr>, Some 400)
         else (st0, None))"

definition overshootTimeout :: "GameState \<Rightarrow> GameState" where
  "overshootTimeout st = st\<lparr>isShaking := False, selectedIds := []\<rparr>"

subsection \<open>The timer of time mode\<close>

text \<open>The interval runs only while \<open>mode === GameMode.TIME && !isGameOver && !isPaused\<close>.\<close>

definition timerActive :: "GameState \<Rightarrow> bool" where
  "timerActive st = (mode st = Some TIME \<and> \<not> isGameOver st \<and> \<not> isPaused st)"

text \<open>
  The interval's callback: \<open>setTimeLeft(prev => { if (prev <= 1) { addRow(); return TIME_LIMIT; }
  return prev - 1; })\<close>.
\<close>

definition tick :: "GameState \<Rightarrow> (nat \<Rightarrow> draw) \<Rightarrow> GameState" where
  "tick st src =
     (if timeLeft st \<le> 1 then (addRow st src)\<lparr>timeLeft := TIME_LIMIT\<rparr>
      else st\<lparr>timeLeft := timeLeft st - 1\<rparr>)"

subsection \<open>Events\<close>

text \<open>
  What can happen to the state: the buttons (start, retry and reset call \<open>initGame\<close>;
  a block is clicked; pause, resume, menu), a tick of the interval, a run of the sum
  effect, and the overshoot timer firing.  Each carries the random numbers it consumes.
\<close>

datatype event =
    Init GameMode "nat \<Rightarrow> nat \<Rightarrow> draw" real
  | Click string
  | Tick "nat \<Rightarrow> draw"
  | PauseToggle
  | Resume
  | Menu
  | SumEffect real "nat \<Rightarrow> draw"
  | OvershootTimeout

fun step :: "GameState \<Rightarrow> event \<Rightarrow> GameState" where
  "step st (Init m src u) = initGame st m src u"
| "step st (Click i) = handleBlockClick st i"
| "step st (Tick src) = (if timerActive st then tick st src else st)"
| "step st PauseToggle = st\<lparr>isPaused := \<not> isPaused st\<rparr>"
| "step st Resume = st\<lparr>isPaused := False\<rparr>"
| "step st Menu = st\<lparr>mode := None\<rparr>"
| "step st (SumEffect u src) = fst (sumEffect st u src)"
| "step st OvershootTimeout = overshootTimeout st"

definition run :: "GameState \<Rightarrow> event list \<Rightarrow> GameState" where
  "run st evs = foldl step st evs"

text \<open>The \<open>useState\<close> defaults.\<close>

definition initialState :: GameState where
  "initialState =
     \<lparr>mode = None, grid = [], score = 0, target = 0, selectedIds = [], isGameOver = False,
      timeLeft = TIME_LIMIT, isPaused = False, isShaking = False, currentSum = 0\<rparr>"

subsection \<open>Predicates of the specification\<close>

text \<open>A block with id \<open>i\<close> is in the grid.\<close>

definition present :: "grid \<Rightarrow> string \<Rightarrow> bool" where
  "present g i = list_ex (\<lambda>b. id_b b = i) (blocks g)"

text \<open>Two states that differ at most in the selection.\<close>

definition sameButSelection :: "GameState \<Rightarrow> GameState \<Rightarrow> bool" where
  "sameButSelection a b = (a\<lparr>selectedIds := []\<rparr> = b\<lparr>selectedIds := []\<rparr>)"

text \<open>Two grids of the same shape.\<close>

definition sameShape :: "grid \<Rightarrow> grid \<Rightarrow> bool" where
  "sameShape G g = (map length G = map length g)"

text \<open>The number of blocks in column \<open>c\<close>.\<close>

definition colCount :: "grid \<Rightarrow> nat \<Rightarrow> nat" where
  "colCount g c = length (filter (\<lambda>x. x \<noteq> None) (column g c))"

text \<open>
  No block of column \<open>c\<close> has an empty cell directly beneath it.
\<close>

definition settled :: "grid \<Rightarrow> nat \<Rightarrow> bool" where
  "settled g c = list_all (\<lambda>r. \<not> (g ! r ! c = None \<and> g ! (r - 1) ! c \<noteq> None)) [1..<GRID_ROWS]"

text \<open>The outer loop of \<open>applyGravity\<close> after the first \<open>n\<close> columns.\<close>

definition gravityCols :: "grid \<Rightarrow> nat \<Rightarrow> grid \<times> bool" where
  "gravityCols g n =
     foldl (\<lambda>(g, changed) c. gravityRows g c (GRID_ROWS - 1) changed) (g, False) [0..<n]"

subsection \<open>The invariant of the grid\<close>

text \<open>
  The cells of the grid, row by row, and those that hold a block.  \<open>synced\<close>: the \<open>row\<close>
  and \<open>col\<close> fields of every block are the indices of its cell.  \<open>uniqueIds\<close>: the ids
  of the blocks, listed cell by cell, are all different.
\<close>

definition positions :: "(nat \<times> nat) list" where
  "positions = List.product [0..<GRID_ROWS] [0..<GRID_COLS]"

definition occupied :: "grid \<Rightarrow> (nat \<times> nat) list" where
  "occupied g = filter (\<lambda>(r, c). g ! r ! c \<noteq> None) positions"

definition synced :: "grid \<Rightarrow> bool" where
  "synced g = list_all (\<lambda>(r, c). row (the (g ! r ! c)) = r \<and> col (the (g ! r ! c)) = c) (occupied g)"

definition uniqueIds :: "grid \<Rightarrow> bool" where
  "uniqueIds g = distinct (map (\<lambda>(r, c). id_b (the (g ! r ! c))) (occupied g))"

definition grid_inv :: "grid \<Rightarrow> bool" where
  "grid_inv g = (wf_grid g \<and> synced g \<and> uniqueIds g)"

text \<open>
  The ids drawn for the first four rows are pairwise different; the ids drawn for a new
  row are pairwise different and none of them is in the grid.
\<close>

definition freshInit :: "(nat \<Rightarrow> nat \<Rightarrow> draw) \<Rightarrow> bool" where
  "freshInit src =
     distinct (map (\<lambda>(r, c). fst (src r c))
       (List.product [GRID_ROWS - INITIAL_ROWS..<GRID_ROWS] [0..<GRID_COLS]))"

definition freshRow :: "grid \<Rightarrow> (nat \<Rightarrow> draw) \<Rightarrow> bool" where
  "freshRow g src =
     (distinct (map (\<lambda>c. fst (src c)) [0..<GRID_COLS]) \<and>
      list_all (\<lambda>c. \<not> present g (fst (src c))) [0..<GRID_COLS])"

text \<open>
  The grids that the operations produce: \<open>initGame\<close>, the row injection of \<open>addRow\<close>
  (on overflow the grid stays), the removal of a match, and \<open>applyGravity\<close>.
  \<open>reachableFresh\<close> are those where every draw of ids was fresh.
\<close>

inductive reachable :: "grid \<Rightarrow> bool" where
  init: "reachable (initGrid src)"
| inject: "reachable g \<Longrightarrow> \<not> topRowOccupied g \<Longrightarrow> reachable (addRowGrid src g)"
| remove: "reachable g \<Longrightarrow> reachable (removeSelected g sel)"
| gravity: "reachable g \<Longrightarrow> reachable (fst (applyGravity g))"

inductive reachableFresh :: "grid \<Rightarrow> bool" where
  init: "freshInit src \<Longrightarrow> reachableFresh (initGrid src)"
| inject: "reachableFresh g \<Longrightarrow> \<not> topRowOccupied g \<Longrightarrow> freshRow g src \<Longrightarrow>
           reachableFresh (addRowGrid src g)"
| remove: "reachableFresh g \<Longrightarrow> reachableFresh (removeSelected g sel)"
| gravity: "reachableFresh g \<Longrightarrow> reachableFresh (fst (applyGravity g))"

text \<open>
  The blocks of column \<open>c\<close> from top to bottom, and the same with the \<open>row\<close> field set
  aside (a fall changes nothing else).
\<close>

definition colBlocks :: "grid \<Rightarrow> nat \<Rightarrow> BlockData list" where
  "colBlocks g c = map the (filter (\<lambda>x. x \<noteq> None) (column g c))"

definition colContent :: "grid \<Rightarrow> nat \<Rightarrow> BlockData list" where
  "colContent g c = map (\<lambda>b. b\<lparr>row := 0\<rparr>) (colBlocks g c)"

text \<open>Two value sources: one that hands out the same id every time, one with fresh ids.\<close>

definition sameIds :: "nat \<Rightarrow> nat \<Rightarrow> draw" where
  "sameIds r c = (''i'', 0)"

definition freshIds :: "nat \<Rightarrow> nat \<Rightarrow> draw" where
  "freshIds r c = (replicate r (CHR ''r'') @ replicate c (CHR ''c''), 0)"

subsection \<open>A sample position\<close>

text \<open>
  Column 0 is full to the top row; the bottom row holds five more blocks with the values
  5, 5, 9, 9 and 3.  The target is 10.
\<close>

definition mk :: "string \<Rightarrow> int \<Rightarrow> nat \<Rightarrow> nat \<Rightarrow> BlockData" where
  "mk i v r c = \<lparr>id_b = i, value_b = v, row = r, col = c, isSelected = False\<rparr>"

definition towerRow :: "string \<Rightarrow> nat \<Rightarrow> cell list" where
  "towerRow i r = [Some (mk i 1 r 0), None, None, None, None, None]"

definition demoGrid :: grid where
  "demoGrid =
     [towerRow ''a0'' 0, towerRow ''a1'' 1, towerRow ''a2'' 2, towerRow ''a3'' 3,
      towerRow ''a4'' 4, towerRow ''a5'' 5, towerRow ''a6'' 6, towerRow ''a7'' 7,
      towerRow ''a8'' 8,
      [Some (mk ''a9'' 1 9 0), Some (mk ''b1'' 5 9 1), Some (mk ''b2'' 5 9 2),
       Some (mk ''b3'' 9 9 3), Some (mk ''b4'' 9 9 4), Some (mk ''b5'' 3 9 5)]]"

definition demoState :: "GameMode \<Rightarrow> string list \<Rightarrow> GameState" where
  "demoState m sel =
     \<lparr>mode = Some m, grid = demoGrid, score = 30, target = 10, selectedIds = sel,
      isGameOver = False, timeLeft = 10, isPaused = False, isShaking = False, currentSum = 0\<rparr>"

definition noDraw :: "nat \<Rightarrow> draw" where
  "noDraw c = ([], 0)"

section \<open>The gravity loop terminates\<close>

lemma weight_fall:
  "Suc i < length xs \<Longrightarrow> xs ! i \<noteq> None \<Longrightarrow> xs ! Suc i = None \<Longrightarrow>
   weight (xs[Suc i := Some v, i := None]) < weight xs"
proof (induction xs arbitrary: i)
  case Nil
  then show ?case by simp
next
  case (Cons x xs)
  show ?case
  proof (cases i)
    case 0
    with Cons.prems show ?thesis by (cases xs) auto
  next
    case (Suc j)
    with Cons.prems Cons.IH [of j] show ?thesis by auto
  qed
qed

lemma column_setCell:
  "inGrid g r c \<Longrightarrow> column (setCell g r c v) c = (column g c)[r := v]"
  by (auto simp: column_def setCell_def inGrid_def list_eq_iff_nth_eq nth_list_update)

lemma inGrid_setCell [simp]: "inGrid (setCell g r c v) r' c' = inGrid g r' c'"
  by (cases "r' = r") (auto simp: setCell_def inGrid_def)

lemma column_nth: "r < length g \<Longrightarrow> column g c ! r = g ! r ! c"
  by (simp add: column_def)

lemma length_column [simp]: "length (column g c) = length g"
  by (simp add: column_def)

termination gravityRows
proof (relation "measures [\<lambda>(g, c, r, ch). weight (column g c), \<lambda>(g, c, r, ch). r]")
  show "wf (measures [\<lambda>(g, c, r, ch). weight (column g c), \<lambda>(g, c, r, ch). r])"
    by simp
next
  fix g :: grid and c r :: nat and changed :: bool
  assume a: "0 < r \<and> inGrid g r c \<and> inGrid g (r - 1) c"
    and b: "g ! r ! c = None \<and> g ! (r - 1) ! c \<noteq> None"
  obtain i where r: "r = Suc i" using a by (cases r) auto
  have "weight ((column g c)[Suc i := Some ((the (g ! i ! c))\<lparr>row := Suc i\<rparr>), i := None])
        < weight (column g c)"
    using a b r by (intro weight_fall) (auto simp: inGrid_def column_nth)
  then show "((setCell (setCell g r c (Some ((the (g ! (r - 1) ! c))\<lparr>row := r\<rparr>))) (r - 1) c None,
               c, GRID_ROWS - 1, True), (g, c, r, changed))
             \<in> measures [\<lambda>(g, c, r, ch). weight (column g c), \<lambda>(g, c, r, ch). r]"
    using a r by (simp add: column_setCell)
next
  fix g :: grid and c r :: nat and changed :: bool
  assume "0 < r \<and> inGrid g r c \<and> inGrid g (r - 1) c"
  then show "((g, c, r - 1, changed), (g, c, r, changed))
             \<in> measures [\<lambda>(g, c, r, ch). weight (column g c), \<lambda>(g, c, r, ch). r]"
    by simp
qed

declare gravityRows.simps [simp del]

section \<open>Facts about \<open>addRow\<close> on the state\<close>

lemma addRow_fields [simp]:
  "score (addRow st src) = score st" "target (addRow st src) = target st"
  "selectedIds (addRow st src) = selectedIds st" "mode (addRow st src) = mode st"
  "isPaused (addRow st src) = isPaused st" "isShaking (addRow st src) = isShaking st"
  "currentSum (addRow st src) = currentSum st"
  by (simp_all add: addRow_def Let_def)

lemma addRow_timeLeft:
  "timeLeft (addRow st src) = (if mode st = Some TIME then TIME_LIMIT else timeLeft st)"
  by (simp add: addRow_def Let_def)

lemma addRow_isGameOver:
  "isGameOver (addRow st src) = (isGameOver st \<or> topRowOccupied (grid st))"
  by (simp add: addRow_def Let_def)

lemma addRow_grid:
  "grid (addRow st src) =
     (if topRowOccupied (grid st) then grid st else addRowGrid src (grid st))"
  by (simp add: addRow_def Let_def)

lemma getRandomTarget_range:
  "0 \<le> u \<Longrightarrow> u < 1 \<Longrightarrow> TARGET_MIN \<le> getRandomTarget u \<and> getRandomTarget u \<le> TARGET_MAX"
  unfolding getRandomTarget_def TARGET_MIN_def TARGET_MAX_def
  by (simp add: floor_less_iff le_floor_iff)

section \<open>The timer stays between 1 and 10\<close>

lemma step_timeLeft:
  "1 \<le> timeLeft st \<and> timeLeft st \<le> TIME_LIMIT \<Longrightarrow>
   1 \<le> timeLeft (step st ev) \<and> timeLeft (step st ev) \<le> TIME_LIMIT"
  by (cases ev)
     (auto simp: initGame_def handleBlockClick_def tick_def sumEffect_def Let_def matchUpdate_def
        overshootTimeout_def addRow_timeLeft TIME_LIMIT_def)

lemma run_timeLeft:
  "1 \<le> timeLeft st \<and> timeLeft st \<le> TIME_LIMIT \<Longrightarrow>
   1 \<le> timeLeft (run st evs) \<and> timeLeft (run st evs) \<le> TIME_LIMIT"
  unfolding run_def
proof (induction evs arbitrary: st)
  case Nil
  then show ?case by simp
next
  case (Cons ev evs)
  from Cons.prems have "1 \<le> timeLeft (step st ev) \<and> timeLeft (step st ev) \<le> TIME_LIMIT"
    by (rule step_timeLeft)
  then show ?case using Cons.IH by simp
qed

text \<open>
  Claim C10.  From the start of a time-mode game on, whatever events follow (clicks,
  ticks, pause and resume, runs of the sum effect, the overshoot timer, a return to the
  menu, a restart), \<open>timeLeft\<close> is at least 1 and at most 10, so it is never 0.
  \<open>initGame\<close> sets it to 10, \<open>addRow\<close> in time mode sets it to 10, and the tick sets it
  to 10 when the previous value is at most 1 and subtracts 1 otherwise.
\<close>

theorem timeLeft_in_range:
  "1 \<le> timeLeft (run (initGame st0 TIME src u) evs) \<and>
   timeLeft (run (initGame st0 TIME src u) evs) \<le> 10 \<and>
   timeLeft (initGame st0 m src u) = 10 \<and>
   timeLeft (addRow (st\<lparr>mode := Some TIME\<rparr>) srcr) = 10 \<and>
   timeLeft (tick st srcr) = (if timeLeft st \<le> 1 then 10 else timeLeft st - 1)"
proof -
  have "1 \<le> timeLeft (initGame st0 TIME src u) \<and> timeLeft (initGame st0 TIME src u) \<le> TIME_LIMIT"
    by (simp add: initGame_def TIME_LIMIT_def)
  from run_timeLeft [OF this] show ?thesis
    by (simp add: TIME_LIMIT_def initGame_def addRow_timeLeft tick_def)
qed

theorem timeLeft_in_range_witness:
  "1 \<le> timeLeft (run (initGame initialState TIME (\<lambda>r c. ([], 0)) 0) [Tick (\<lambda>c. ([], 0))]) \<and>
   timeLeft (run (initGame initialState TIME (\<lambda>r c. ([], 0)) 0) [Tick (\<lambda>c. ([], 0))]) \<le> 10"
  using timeLeft_in_range [of initialState "\<lambda>r c. ([], 0)" 0 "[Tick (\<lambda>c. ([], 0))]"]
  by simp

section \<open>The sample position\<close>

lemma demo_blocks:
  "blocks demoGrid =
     [mk ''a0'' 1 0 0, mk ''a1'' 1 1 0, mk ''a2'' 1 2 0, mk ''a3'' 1 3 0, mk ''a4'' 1 4 0,
      mk ''a5'' 1 5 0, mk ''a6'' 1 6 0, mk ''a7'' 1 7 0, mk ''a8'' 1 8 0, mk ''a9'' 1 9 0,
      mk ''b1'' 5 9 1, mk ''b2'' 5 9 2, mk ''b3'' 9 9 3, mk ''b4'' 9 9 4, mk ''b5'' 3 9 5]"
  by (simp add: blocks_def demoGrid_def towerRow_def)

lemma demo_sum_over: "selSum demoGrid [''b3'', ''b4''] = 18"
  by (simp add: selSum_def selectedBlocks_def demo_blocks mk_def)

lemma demo_sum_match: "selSum demoGrid [''b1'', ''b2''] = 10"
  by (simp add: selSum_def selectedBlocks_def demo_blocks mk_def)

lemma demo_absent: "\<not> present demoGrid ''zz''"
  by (simp add: present_def demo_blocks mk_def)

lemma wf_demoGrid: "wf_grid demoGrid"
  by (simp add: wf_grid_def demoGrid_def towerRow_def GRID_ROWS_def GRID_COLS_def)

lemma top_demoGrid: "topRowOccupied demoGrid"
  by (simp add: topRowOccupied_def demoGrid_def towerRow_def)

section \<open>Ticks of the timer\<close>

lemma ticks_decrement:
  "timerActive st \<Longrightarrow> int (length srcs) < timeLeft st \<Longrightarrow>
   run st (map Tick srcs) = st\<lparr>timeLeft := timeLeft st - int (length srcs)\<rparr>"
proof (induction srcs arbitrary: st)
  case Nil
  then show ?case by (simp add: run_def)
next
  case (Cons s srcs)
  let ?st = "st\<lparr>timeLeft := timeLeft st - 1\<rparr>"
  have s: "step st (Tick s) = ?st" using Cons.prems by (simp add: tick_def)
  have "timerActive ?st" using Cons.prems by (simp add: timerActive_def)
  moreover have "int (length srcs) < timeLeft ?st" using Cons.prems by simp
  ultimately have "run ?st (map Tick srcs) = ?st\<lparr>timeLeft := timeLeft ?st - int (length srcs)\<rparr>"
    by (rule Cons.IH)
  then show ?case using s by (simp add: run_def)
qed

section \<open>Game over\<close>

lemma sumEffect_isGameOver: "isGameOver st \<Longrightarrow> isGameOver (fst (sumEffect st u src))"
  by (simp add: sumEffect_def Let_def matchUpdate_def addRow_isGameOver)

text \<open>
  Claim C7.  Once \<open>isGameOver\<close> holds, a click on a block and a tick leave the whole
  state as it is, pause and resume change neither the score nor the grid nor \<open>timeLeft\<close>,
  and every event other than \<open>initGame\<close> (start, retry, reset) leaves \<open>isGameOver\<close>
  true, while \<open>initGame\<close> makes it false.
\<close>

theorem terminal_lock:
  assumes "isGameOver st"
  shows "step st (Click i) = st \<and> step st (Tick src) = st \<and>
         score (step st PauseToggle) = score st \<and> grid (step st PauseToggle) = grid st \<and>
         timeLeft (step st PauseToggle) = timeLeft st \<and>
         score (step st Resume) = score st \<and> grid (step st Resume) = grid st \<and>
         timeLeft (step st Resume) = timeLeft st \<and>
         (case ev of Init m s u \<Rightarrow> \<not> isGameOver (step st ev) | _ \<Rightarrow> isGameOver (step st ev))"
  using assms
  by (cases ev)
     (simp_all add: handleBlockClick_def timerActive_def initGame_def overshootTimeout_def
        sumEffect_isGameOver)

theorem terminal_lock_witness:
  "isGameOver ((demoState TIME [''b1''])\<lparr>isGameOver := True\<rparr>) \<and>
   step ((demoState TIME [''b1''])\<lparr>isGameOver := True\<rparr>) (Click ''b2'') =
     (demoState TIME [''b1''])\<lparr>isGameOver := True\<rparr> \<and>
   step ((demoState TIME [''b1''])\<lparr>isGameOver := True\<rparr>) (Tick noDraw) =
     (demoState TIME [''b1''])\<lparr>isGameOver := True\<rparr> \<and>
   isGameOver (step ((demoState TIME [''b1''])\<lparr>isGameOver := True\<rparr>) (SumEffect 0 noDraw))"
  using terminal_lock [of "(demoState TIME [''b1''])\<lparr>isGameOver := True\<rparr>" "''b2''" noDraw
      "SumEffect 0 noDraw"]
  by simp

section \<open>Overshoot\<close>

text \<open>
  Claim C6.  When the sum of the selected blocks exceeds the target (which is never
  negative), the sum effect changes neither the grid nor the score, keeps the selection
  for the moment, and schedules the timer of 400 ms; when that timer fires, in whatever
  state \<open>st'\<close> the game then is, the selection becomes empty and grid and score stay.
\<close>

theorem overshoot_clears:
  assumes "target st < selSum (grid st) (selectedIds st)" and "0 \<le> target st"
  shows "snd (sumEffect st u src) = Some 400 \<and>
         grid (fst (sumEffect st u src)) = grid st \<and>
         score (fst (sumEffect st u src)) = score st \<and>
         selectedIds (fst (sumEffect st u src)) = selectedIds st \<and>
         selectedIds (overshootTimeout st') = [] \<and>
         grid (overshootTimeout st') = grid st' \<and>
         score (overshootTimeout st') = score st'"
  using assms by (simp add: sumEffect_def Let_def overshootTimeout_def)

theorem overshoot_clears_witness:
  "target (demoState TIME [''b3'', ''b4'']) < selSum (grid (demoState TIME [''b3'', ''b4''])) (selectedIds (demoState TIME [''b3'', ''b4''])) \<and>
   snd (sumEffect (demoState TIME [''b3'', ''b4'']) 0 noDraw) = Some 400 \<and>
   grid (fst (sumEffect (demoState TIME [''b3'', ''b4'']) 0 noDraw)) = demoGrid \<and>
   score (fst (sumEffect (demoState TIME [''b3'', ''b4'']) 0 noDraw)) = 30 \<and>
   selectedIds (overshootTimeout (fst (sumEffect (demoState TIME [''b3'', ''b4'']) 0 noDraw))) = []"
  using overshoot_clears [of "demoState TIME [''b3'', ''b4'']" 0 noDraw
      "fst (sumEffect (demoState TIME [''b3'', ''b4'']) 0 noDraw)"]
  by (simp add: demoState_def demo_sum_over)

section \<open>Ids that are not in the grid\<close>

lemma cell_in_blocks: "rw \<in> set g \<Longrightarrow> Some b \<in> set rw \<Longrightarrow> b \<in> set (blocks g)"
  by (force simp: blocks_def)

lemma selectedBlocks_cong:
  "(\<And>b. b \<in> set (blocks g) \<Longrightarrow> id_b b \<in> set sel \<longleftrightarrow> id_b b \<in> set sel') \<Longrightarrow>
   selectedBlocks g sel = selectedBlocks g sel'"
  unfolding selectedBlocks_def by (rule filter_cong) auto

lemma removeSelected_cong:
  assumes "\<And>b. b \<in> set (blocks g) \<Longrightarrow> id_b b \<in> set sel \<longleftrightarrow> id_b b \<in> set sel'"
  shows "removeSelected g sel = removeSelected g sel'"
  unfolding removeSelected_def
proof (rule map_cong [OF refl], rule map_cong [OF refl])
  fix rw x assume "rw \<in> set g" "x \<in> set rw"
  then show "removeCell sel x = removeCell sel' x"
    using assms cell_in_blocks [of rw g] by (cases x) (auto simp: removeCell_def)
qed

lemma sumEffect_cong:
  assumes "\<And>b. b \<in> set (blocks (grid st)) \<Longrightarrow> id_b b \<in> set sel \<longleftrightarrow> id_b b \<in> set sel'"
  shows "sameButSelection (fst (sumEffect (st\<lparr>selectedIds := sel\<rparr>) u src))
           (fst (sumEffect (st\<lparr>selectedIds := sel'\<rparr>) u src)) \<and>
         snd (sumEffect (st\<lparr>selectedIds := sel\<rparr>) u src) =
           snd (sumEffect (st\<lparr>selectedIds := sel'\<rparr>) u src)"
proof -
  have sb: "selectedBlocks (grid st) sel = selectedBlocks (grid st) sel'"
    using assms by (rule selectedBlocks_cong)
  have rm: "removeSelected (grid st) sel = removeSelected (grid st) sel'"
    using assms by (rule removeSelected_cong)
  have ss: "selSum (grid st) sel = selSum (grid st) sel'"
    by (simp add: selSum_def sb)
  have mu: "matchUpdate (st\<lparr>selectedIds := sel, currentSum := x\<rparr>) u =
            matchUpdate (st\<lparr>selectedIds := sel', currentSum := x\<rparr>) u" for x
    by (simp add: matchUpdate_def sb rm)
  show ?thesis
    by (simp add: sumEffect_def Let_def ss mu sameButSelection_def)
qed

lemma present_iff: "present g i \<longleftrightarrow> i \<in> id_b ` set (blocks g)"
  by (auto simp: present_def list_ex_iff)

text \<open>
  Claim C9.  A click on an id that no block of the grid has changes neither grid nor
  score nor the sum of the selection, and the sum effect after it does what it does
  without the click, up to the selection it leaves.  In general the ids of a selection
  that are not in the grid add nothing to the sum, and the sum effect gives the same
  state (up to the selection) and the same timer with or without them.  The model's
  functions are total: there is no fault to raise.
\<close>

theorem absent_ids_tolerated:
  assumes "\<not> present (grid st) i"
  shows "grid (handleBlockClick st i) = grid st \<and>
         score (handleBlockClick st i) = score st \<and>
         selSum (grid st) (selectedIds (handleBlockClick st i)) = selSum (grid st) (selectedIds st) \<and>
         sameButSelection (fst (sumEffect (handleBlockClick st i) u src)) (fst (sumEffect st u src)) \<and>
         snd (sumEffect (handleBlockClick st i) u src) = snd (sumEffect st u src) \<and>
         selSum (grid st) sel = selSum (grid st) (filter (present (grid st)) sel) \<and>
         sameButSelection (fst (sumEffect (st\<lparr>selectedIds := sel\<rparr>) u src))
           (fst (sumEffect (st\<lparr>selectedIds := filter (present (grid st)) sel\<rparr>) u src)) \<and>
         snd (sumEffect (st\<lparr>selectedIds := sel\<rparr>) u src) =
           snd (sumEffect (st\<lparr>selectedIds := filter (present (grid st)) sel\<rparr>) u src)"
proof -
  let ?sel' = "selectedIds (handleBlockClick st i)"
  have a: "id_b b \<in> set ?sel' \<longleftrightarrow> id_b b \<in> set (selectedIds st)"
    if "b \<in> set (blocks (grid st))" for b
    using that assms by (auto simp: handleBlockClick_def present_iff)
  have b: "id_b b \<in> set sel \<longleftrightarrow> id_b b \<in> set (filter (present (grid st)) sel)"
    if "b \<in> set (blocks (grid st))" for b
    using that by (auto simp: present_iff)
  have hb: "handleBlockClick st i = st\<lparr>selectedIds := ?sel'\<rparr>"
    by (simp add: handleBlockClick_def)
  have st: "st = st\<lparr>selectedIds := selectedIds st\<rparr>" by simp
  have 1: "selSum (grid st) ?sel' = selSum (grid st) (selectedIds st)"
    using selectedBlocks_cong [OF a] by (simp add: selSum_def)
  have 2: "selSum (grid st) sel = selSum (grid st) (filter (present (grid st)) sel)"
    using selectedBlocks_cong [OF b] by (simp add: selSum_def)
  from sumEffect_cong [of st ?sel' "selectedIds st" u src, OF a]
  have 3: "sameButSelection (fst (sumEffect (handleBlockClick st i) u src)) (fst (sumEffect st u src)) \<and>
         snd (sumEffect (handleBlockClick st i) u src) = snd (sumEffect st u src)"
    using hb by simp
  note 4 = sumEffect_cong [of st sel "filter (present (grid st)) sel" u src, OF b]
  show ?thesis using 1 2 3 4 by (simp add: handleBlockClick_def)
qed

theorem absent_ids_tolerated_witness:
  "\<not> present (grid (demoState TIME [''b1''])) ''zz'' \<and>
   selSum demoGrid (selectedIds (handleBlockClick (demoState TIME [''b1'']) ''zz'')) = selSum demoGrid [''b1''] \<and>
   selSum demoGrid [''zz'', ''b1''] = selSum demoGrid (filter (present demoGrid) [''zz'', ''b1''])"
  using absent_ids_tolerated [where st = "demoState TIME [''b1'']" and i = "''zz''"
      and sel = "[''zz'', ''b1'']"]
  by (simp add: demoState_def demo_absent)

section \<open>Cells of the grid after the loops\<close>

lemma length_setCell [simp]: "length (setCell g r c v) = length g"
  by (simp add: setCell_def)

lemma length_setCell_row [simp]: "length (setCell g r c v ! r') = length (g ! r')"
  by (cases "r' = r"; cases "r < length g") (simp_all add: setCell_def list_update_beyond)

lemma nth_setCell:
  "setCell g r c v ! r' ! c' = (if r' = r \<and> c' = c \<and> inGrid g r c then v else g ! r' ! c')"
  by (cases "r' = r"; cases "r < length g"; cases "c' = c"; cases "c < length (g ! r)")
     (simp_all add: setCell_def inGrid_def list_update_beyond)

lemma map_length_setCell [simp]: "map length (setCell g r c v) = map length g"
  by (simp add: list_eq_iff_nth_eq)

lemma sameShape_refl [simp]: "sameShape g g"
  by (simp add: sameShape_def)

lemma sameShape_setCell [simp]: "sameShape (setCell G r c v) g = sameShape G g"
  by (simp add: sameShape_def)

lemma sameShape_length: "sameShape G g \<Longrightarrow> length G = length g"
  unfolding sameShape_def by (rule map_eq_imp_length_eq)

lemma sameShape_row:
  assumes "sameShape G g" and "r < length g"
  shows "length (G ! r) = length (g ! r)"
proof -
  have "length (G ! r) = map length G ! r"
    using assms sameShape_length [of G g] by simp
  also have "\<dots> = map length g ! r"
    using assms(1) by (simp add: sameShape_def)
  also have "\<dots> = length (g ! r)"
    using assms(2) by simp
  finally show ?thesis .
qed

lemma sameShape_inGrid: "sameShape G g \<Longrightarrow> inGrid G r c = inGrid g r c"
  using sameShape_length [of G g] sameShape_row [of G g r] by (auto simp: inGrid_def)

lemma wf_grid_iff:
  "wf_grid g \<longleftrightarrow> length g = GRID_ROWS \<and> (\<forall>r<GRID_ROWS. length (g ! r) = GRID_COLS)"
  by (auto simp: wf_grid_def list_all_length)

lemma sameShape_wf: "sameShape G g \<Longrightarrow> wf_grid G = wf_grid g"
  using sameShape_length [of G g] sameShape_row [of G g] by (auto simp: wf_grid_iff)

lemma wf_inGrid: "wf_grid g \<Longrightarrow> inGrid g r c \<longleftrightarrow> r < GRID_ROWS \<and> c < GRID_COLS"
  by (auto simp: wf_grid_iff inGrid_def)

text \<open>A loop that writes the cells \<open>0, ..., n - 1\<close> of row \<open>r\<close>, reading only other rows.\<close>

lemma write_loop:
  assumes "\<And>G c. sameShape G g \<Longrightarrow> (\<forall>c'. G ! q ! c' = g ! q ! c') \<Longrightarrow> f G c = h c"
    and "q \<noteq> r"
  shows "sameShape (foldl (\<lambda>G c. setCell G r c (f G c)) g [0..<n]) g \<and>
         (\<forall>r' c'. foldl (\<lambda>G c. setCell G r c (f G c)) g [0..<n] ! r' ! c' =
            (if r' = r \<and> c' < n \<and> inGrid g r c' then h c' else g ! r' ! c'))"
proof (induction n)
  case 0
  show ?case by simp
next
  case (Suc n)
  let ?G = "foldl (\<lambda>G c. setCell G r c (f G c)) g [0..<n]"
  from Suc.IH have sh: "sameShape ?G g"
    and nth: "\<And>r' c'. ?G ! r' ! c' = (if r' = r \<and> c' < n \<and> inGrid g r c' then h c' else g ! r' ! c')"
    by auto
  have "f ?G n = h n"
    using sh nth assms(2) by (intro assms(1)) auto
  then show ?case
    using sh nth by (auto simp: nth_setCell sameShape_inGrid less_Suc_eq)
qed

lemma fillRow_nth:
  "sameShape (fillRow src r g) g \<and>
   fillRow src r g ! r' ! c' =
     (if r' = r \<and> c' < GRID_COLS \<and> inGrid g r c' then Some (newBlock (src c') r c')
      else g ! r' ! c')"
  unfolding fillRow_def
  using write_loop [of g "Suc r" "\<lambda>G c. Some (newBlock (src c) r c)"
      "\<lambda>c. Some (newBlock (src c) r c)" r GRID_COLS]
  by simp

lemma shiftRow_nth:
  "sameShape (foldl (\<lambda>G c. shiftCell G r c) g [0..<GRID_COLS]) g \<and>
   foldl (\<lambda>G c. shiftCell G r c) g [0..<GRID_COLS] ! r' ! c' =
     (if r' = r \<and> c' < GRID_COLS \<and> inGrid g r c'
      then map_option (\<lambda>b. b\<lparr>row := r\<rparr>) (g ! (r + 1) ! c') else g ! r' ! c')"
  unfolding shiftCell_def
  using write_loop [of g "r + 1" "\<lambda>G c. map_option (\<lambda>b. b\<lparr>row := r\<rparr>) (G ! (r + 1) ! c)"
      "\<lambda>c. map_option (\<lambda>b. b\<lparr>row := r\<rparr>) (g ! (r + 1) ! c)" r GRID_COLS]
  by simp

lemma sameShape_trans: "sameShape a b \<Longrightarrow> sameShape b c \<Longrightarrow> sameShape a c"
  by (simp add: sameShape_def)

lemma shift_loop:
  "sameShape (foldl (\<lambda>G r. foldl (\<lambda>G' c. shiftCell G' r c) G [0..<GRID_COLS]) g [0..<n]) g \<and>
   (\<forall>r' c'. foldl (\<lambda>G r. foldl (\<lambda>G' c. shiftCell G' r c) G [0..<GRID_COLS]) g [0..<n] ! r' ! c' =
     (if r' < n \<and> c' < GRID_COLS \<and> inGrid g r' c'
      then map_option (\<lambda>b. b\<lparr>row := r'\<rparr>) (g ! (r' + 1) ! c') else g ! r' ! c'))"
proof (induction n)
  case 0
  show ?case by simp
next
  case (Suc n)
  let ?G = "foldl (\<lambda>G r. foldl (\<lambda>G' c. shiftCell G' r c) G [0..<GRID_COLS]) g [0..<n]"
  from Suc.IH have sh: "sameShape ?G g"
    and nth: "\<And>r' c'. ?G ! r' ! c' = (if r' < n \<and> c' < GRID_COLS \<and> inGrid g r' c'
      then map_option (\<lambda>b. b\<lparr>row := r'\<rparr>) (g ! (r' + 1) ! c') else g ! r' ! c')"
    by auto
  note step = shiftRow_nth [of n ?G]
  show ?case
    using sh sameShape_trans [OF step [THEN conjunct1] sh]
    by (auto simp: step [THEN conjunct2] nth sameShape_inGrid less_Suc_eq)
qed

lemma shiftUp_nth:
  "shiftUp g ! r ! c =
     (if r < GRID_ROWS - 1 \<and> c < GRID_COLS \<and> inGrid g r c
      then map_option (\<lambda>b. b\<lparr>row := r\<rparr>) (g ! (r + 1) ! c) else g ! r ! c)"
  unfolding shiftUp_def using shift_loop [of g "GRID_ROWS - 1"] by simp

lemma sameShape_shiftUp: "sameShape (shiftUp g) g"
  unfolding shiftUp_def using shift_loop [of g "GRID_ROWS - 1"] by simp

lemma sameShape_addRowGrid: "sameShape (addRowGrid src g) g"
  unfolding addRowGrid_def
  using sameShape_trans [OF fillRow_nth [THEN conjunct1] sameShape_shiftUp] .

lemma addRowGrid_nth:
  assumes "wf_grid g" "r < GRID_ROWS" "c < GRID_COLS"
  shows "addRowGrid src g ! r ! c =
     (if r = GRID_ROWS - 1 then Some (newBlock (src c) (GRID_ROWS - 1) c)
      else map_option (\<lambda>b. b\<lparr>row := r\<rparr>) (g ! (r + 1) ! c))"
  using assms
  by (auto simp: addRowGrid_def fillRow_nth [THEN conjunct2] shiftUp_nth
      sameShape_inGrid [OF sameShape_shiftUp] wf_inGrid)

lemma wf_addRowGrid: "wf_grid (addRowGrid src g) = wf_grid g"
  using sameShape_addRowGrid by (rule sameShape_wf)

lemma wf_emptyGrid: "wf_grid emptyGrid"
  by (simp add: wf_grid_iff emptyGrid_def)

lemma initGrid_unfold:
  "initGrid src = fillRow (src 6) 6 (fillRow (src 7) 7 (fillRow (src 8) 8 (fillRow (src 9) 9 emptyGrid)))"
  by (simp add: initGrid_def GRID_ROWS_def INITIAL_ROWS_def upt_rec_numeral)

lemma sameShape_initGrid: "sameShape (initGrid src) emptyGrid"
  unfolding initGrid_unfold
  by (blast intro: sameShape_trans fillRow_nth [THEN conjunct1])

lemma wf_initGrid: "wf_grid (initGrid src)"
  using sameShape_wf [OF sameShape_initGrid] wf_emptyGrid by simp

lemma initGrid_nth:
  assumes "r < GRID_ROWS" "c < GRID_COLS"
  shows "initGrid src ! r ! c =
     (if GRID_ROWS - INITIAL_ROWS \<le> r then Some (newBlock (src r c) r c) else None)"
proof -
  have e: "emptyGrid ! r ! c = None" using assms by (simp add: emptyGrid_def)
  have i: "inGrid emptyGrid r' c \<longleftrightarrow> r' < GRID_ROWS" for r'
    using assms wf_inGrid [OF wf_emptyGrid] by simp
  note s1 = fillRow_nth [of "src 9" 9 emptyGrid]
  note s2 = fillRow_nth [of "src 8" 8 "fillRow (src 9) 9 emptyGrid"]
  note s3 = fillRow_nth [of "src 7" 7 "fillRow (src 8) 8 (fillRow (src 9) 9 emptyGrid)"]
  note s4 = fillRow_nth [of "src 6" 6 "fillRow (src 7) 7 (fillRow (src 8) 8 (fillRow (src 9) 9 emptyGrid))"]
  have sh1: "sameShape (fillRow (src 9) 9 emptyGrid) emptyGrid" using s1 by simp
  have sh2: "sameShape (fillRow (src 8) 8 (fillRow (src 9) 9 emptyGrid)) emptyGrid"
    using s2 sh1 by (blast intro: sameShape_trans)
  have sh3: "sameShape (fillRow (src 7) 7 (fillRow (src 8) 8 (fillRow (src 9) 9 emptyGrid))) emptyGrid"
    using s3 sh2 by (blast intro: sameShape_trans)
  have "r < 6 \<or> r = 6 \<or> r = 7 \<or> r = 8 \<or> r = 9"
    using assms(1) by (auto simp: GRID_ROWS_def)
  then show ?thesis
    using assms e
    by (auto simp: initGrid_unfold s1 [THEN conjunct2] s2 [THEN conjunct2] s3 [THEN conjunct2]
        s4 [THEN conjunct2] sameShape_inGrid [OF sh1] sameShape_inGrid [OF sh2]
        sameShape_inGrid [OF sh3] i GRID_ROWS_def INITIAL_ROWS_def)
qed

lemma sameShape_removeSelected: "sameShape (removeSelected g sel) g"
  by (simp add: sameShape_def removeSelected_def)

lemma wf_removeSelected: "wf_grid (removeSelected g sel) = wf_grid g"
  using sameShape_removeSelected by (rule sameShape_wf)

section \<open>Row injection\<close>

lemma topRowOccupied_iff:
  "wf_grid g \<Longrightarrow> topRowOccupied g \<longleftrightarrow> (\<exists>c<GRID_COLS. g ! 0 ! c \<noteq> None)"
  by (auto simp: topRowOccupied_def list_ex_length wf_grid_iff GRID_ROWS_def)

lemma top_initGrid: "\<not> topRowOccupied (initGrid src)"
  by (simp add: topRowOccupied_iff [OF wf_initGrid] initGrid_nth GRID_ROWS_def INITIAL_ROWS_def)

lemma count_filter_cong:
  "length xs = length ys \<Longrightarrow> (\<And>i. i < length xs \<Longrightarrow> P (xs ! i) \<longleftrightarrow> Q (ys ! i)) \<Longrightarrow>
   length (filter P xs) = length (filter Q ys)"
proof (induction xs ys rule: list_induct2)
  case Nil
  show ?case by simp
next
  case (Cons x xs y ys)
  from Cons.prems [of 0] have "P x \<longleftrightarrow> Q y" by simp
  moreover have "length (filter P xs) = length (filter Q ys)"
    using Cons.prems [of "Suc i" for i] by (intro Cons.IH) simp
  ultimately show ?case by simp
qed

lemma addRowGrid_colCount:
  assumes wf: "wf_grid g" and top: "\<not> topRowOccupied g" and c: "c < GRID_COLS"
  shows "colCount (addRowGrid src g) c = Suc (colCount g c)"
proof -
  let ?xs = "column g c" and ?ys = "column (addRowGrid src g) c"
  have lx: "length ?xs = 10" and ly: "length ?ys = 10"
    using wf wf_addRowGrid [of src g] by (simp_all add: wf_grid_iff GRID_ROWS_def)
  have x0: "?xs ! 0 = None"
    using wf top c by (simp add: topRowOccupied_iff column_nth wf_grid_iff GRID_ROWS_def)
  have ys: "?ys ! r = (if r = 9 then Some (newBlock (src c) 9 c)
                       else map_option (\<lambda>b. b\<lparr>row := r\<rparr>) (?xs ! Suc r))" if "r < 10" for r
    using that wf c wf_addRowGrid [of src g]
    by (simp add: column_nth wf_grid_iff addRowGrid_nth GRID_ROWS_def)
  have xs: "?xs = None # tl ?xs" using lx x0 by (cases ?xs) auto
  have ysl: "?ys = butlast ?ys @ [Some (newBlock (src c) 9 c)]"
  proof -
    have ne: "?ys \<noteq> []" using ly by (auto simp: column_def)
    have "last ?ys = ?ys ! (length ?ys - 1)" using ne by (rule last_conv_nth)
    also have "\<dots> = ?ys ! 9" by (simp only: ly) simp
    also have "\<dots> = Some (newBlock (src c) 9 c)" using ys [of 9] by simp
    finally have "last ?ys = Some (newBlock (src c) 9 c)" .
    with append_butlast_last_id [OF ne] show ?thesis by simp
  qed
  have "length (filter (\<lambda>x. x \<noteq> None) (butlast ?ys)) = length (filter (\<lambda>x. x \<noteq> None) (tl ?xs))"
  proof (rule count_filter_cong)
    show "length (butlast ?ys) = length (tl ?xs)" using lx ly by simp
  next
    fix i assume "i < length (butlast ?ys)"
    then have i: "i < 9" using ly by simp
    then have "butlast ?ys ! i = ?ys ! i" using ly by (simp add: nth_butlast)
    moreover have "tl ?xs ! i = ?xs ! Suc i" using lx i by (simp add: nth_tl)
    ultimately show "butlast ?ys ! i \<noteq> None \<longleftrightarrow> tl ?xs ! i \<noteq> None"
      using ys [of i] i by simp
  qed
  moreover have "colCount g c = length (filter (\<lambda>x. x \<noteq> None) (tl ?xs))"
    unfolding colCount_def by (subst xs) simp
  moreover have "colCount (addRowGrid src g) c = Suc (length (filter (\<lambda>x. x \<noteq> None) (butlast ?ys)))"
    unfolding colCount_def by (subst ysl) simp
  ultimately show ?thesis by simp
qed

text \<open>
  Claim C2.  On a grid of 10 rows and 6 columns: if the top row holds a block, \<open>addRow\<close>
  leaves the grid as it is and sets \<open>isGameOver\<close>.  If the top row is empty, every row
  \<open>r < 9\<close> gets the cells of row \<open>r + 1\<close>, each block with its \<open>row\<close> field set to \<open>r\<close>;
  the bottom row is filled with new blocks; every column holds one block more than
  before (the blocks it had, and the new one); and \<open>isGameOver\<close> is not touched.
\<close>

theorem addRow_shift_or_overflow:
  assumes "wf_grid (grid st)"
  shows "(topRowOccupied (grid st) \<longrightarrow>
            grid (addRow st src) = grid st \<and> isGameOver (addRow st src)) \<and>
         (\<not> topRowOccupied (grid st) \<longrightarrow>
            (\<forall>r<GRID_ROWS - 1. \<forall>c<GRID_COLS.
               grid (addRow st src) ! r ! c = map_option (\<lambda>b. b\<lparr>row := r\<rparr>) (grid st ! (r + 1) ! c)) \<and>
            (\<forall>c<GRID_COLS.
               grid (addRow st src) ! (GRID_ROWS - 1) ! c = Some (newBlock (src c) (GRID_ROWS - 1) c) \<and>
               colCount (grid (addRow st src)) c = Suc (colCount (grid st) c)) \<and>
            wf_grid (grid (addRow st src)) \<and>
            isGameOver (addRow st src) = isGameOver st)"
  using assms
  by (auto simp: addRow_grid addRow_isGameOver addRowGrid_nth wf_addRowGrid addRowGrid_colCount
      GRID_ROWS_def)

theorem addRow_shift_or_overflow_witness:
  "wf_grid (grid (demoState CLASSIC [])) \<and> topRowOccupied (grid (demoState CLASSIC [])) \<and>
   grid (addRow (demoState CLASSIC []) noDraw) = demoGrid \<and>
   isGameOver (addRow (demoState CLASSIC []) noDraw) \<and>
   wf_grid (grid (initGame initialState CLASSIC freshIds 0)) \<and>
   \<not> topRowOccupied (grid (initGame initialState CLASSIC freshIds 0)) \<and>
   grid (addRow (initGame initialState CLASSIC freshIds 0) noDraw) ! 9 ! 0 = Some (newBlock (noDraw 0) 9 0) \<and>
   colCount (grid (addRow (initGame initialState CLASSIC freshIds 0) noDraw)) 0 =
     Suc (colCount (initGrid freshIds) 0)"
proof -
  have a: "wf_grid (grid (demoState CLASSIC []))" "topRowOccupied (grid (demoState CLASSIC []))"
    by (simp_all add: demoState_def wf_demoGrid top_demoGrid)
  have b: "wf_grid (grid (initGame initialState CLASSIC freshIds 0))"
    "\<not> topRowOccupied (grid (initGame initialState CLASSIC freshIds 0))"
    by (simp_all add: initGame_def wf_initGrid top_initGrid)
  have g: "grid (initGame initialState CLASSIC freshIds 0) = initGrid freshIds"
    by (simp add: initGame_def)
  from addRow_shift_or_overflow [OF a(1), of noDraw] a(2)
  have 1: "grid (addRow (demoState CLASSIC []) noDraw) = demoGrid \<and>
           isGameOver (addRow (demoState CLASSIC []) noDraw)"
    by (simp add: demoState_def)
  from addRow_shift_or_overflow [OF b(1), of noDraw] b(2)
  have 2: "\<forall>c<GRID_COLS.
      grid (addRow (initGame initialState CLASSIC freshIds 0) noDraw) ! (GRID_ROWS - 1) ! c =
        Some (newBlock (noDraw c) (GRID_ROWS - 1) c) \<and>
      colCount (grid (addRow (initGame initialState CLASSIC freshIds 0) noDraw)) c =
        Suc (colCount (grid (initGame initialState CLASSIC freshIds 0)) c)"
    by blast
  from 2 [rule_format, of 0] have 3:
    "grid (addRow (initGame initialState CLASSIC freshIds 0) noDraw) ! 9 ! 0 = Some (newBlock (noDraw 0) 9 0) \<and>
     colCount (grid (addRow (initGame initialState CLASSIC freshIds 0) noDraw)) 0 =
       Suc (colCount (initGrid freshIds) 0)"
    by (simp add: GRID_ROWS_def GRID_COLS_def g)
  from a b 1 3 show ?thesis by simp
qed

section \<open>Gravity\<close>

lemma settled_iff:
  "settled g c \<longleftrightarrow> (\<forall>r. 0 < r \<and> r < GRID_ROWS \<longrightarrow> \<not> (g ! r ! c = None \<and> g ! (r - 1) ! c \<noteq> None))"
  by (simp add: settled_def list_all_iff Ball_def Suc_le_eq)

lemma gravityRows_shape: "sameShape (fst (gravityRows g c r ch)) g"
proof (induction g c r ch rule: gravityRows.induct)
  case (1 g c r changed)
  show ?case
    by (subst gravityRows.simps) (use 1 in \<open>auto simp: sameShape_def\<close>)
qed

lemma gravityRows_other:
  "c' \<noteq> c \<Longrightarrow> fst (gravityRows g c r ch) ! r' ! c' = g ! r' ! c'"
proof (induction g c r ch rule: gravityRows.induct)
  case (1 g c r changed)
  show ?case
    by (subst gravityRows.simps) (use 1 in \<open>auto simp: nth_setCell\<close>)
qed

lemma gravityRows_settles:
  "wf_grid g \<Longrightarrow> c < GRID_COLS \<Longrightarrow> r < GRID_ROWS \<Longrightarrow>
   (\<forall>r'. r < r' \<and> r' < GRID_ROWS \<longrightarrow> \<not> (g ! r' ! c = None \<and> g ! (r' - 1) ! c \<noteq> None)) \<Longrightarrow>
   settled (fst (gravityRows g c r ch)) c"
proof (induction g c r ch rule: gravityRows.induct)
  case (1 g c r changed)
  show ?case
  proof (cases "0 < r")
    case False
    then have "gravityRows g c r changed = (g, changed)"
      by (subst gravityRows.simps) simp
    with False "1.prems" show ?thesis by (simp add: settled_iff)
  next
    case True
    with "1.prems" have guard: "0 < r \<and> inGrid g r c \<and> inGrid g (r - 1) c"
      by (simp add: wf_inGrid)
    show ?thesis
    proof (cases "g ! r ! c = None \<and> g ! (r - 1) ! c \<noteq> None")
      case move: True
      let ?g = "setCell (setCell g r c (Some ((the (g ! (r - 1) ! c))\<lparr>row := r\<rparr>))) (r - 1) c None"
      have "wf_grid ?g" using "1.prems"(1) sameShape_wf [of ?g g] by simp
      then have "settled (fst (gravityRows ?g c (GRID_ROWS - 1) True)) c"
        using "1.prems"(2) by (intro "1.IH"(1) [OF guard move]) (auto simp: GRID_ROWS_def)
      moreover have "gravityRows g c r changed = gravityRows ?g c (GRID_ROWS - 1) True"
        by (subst gravityRows.simps) (simp only: guard move simp_thms if_True)
      ultimately show ?thesis by simp
    next
      case stay: False
      have "\<forall>r'. r - 1 < r' \<and> r' < GRID_ROWS \<longrightarrow> \<not> (g ! r' ! c = None \<and> g ! (r' - 1) ! c \<noteq> None)"
      proof (intro allI impI)
        fix r' assume "r - 1 < r' \<and> r' < GRID_ROWS"
        then have "r' = r \<or> (r < r' \<and> r' < GRID_ROWS)" by auto
        then show "\<not> (g ! r' ! c = None \<and> g ! (r' - 1) ! c \<noteq> None)"
          using stay "1.prems"(4) by auto
      qed
      then have "settled (fst (gravityRows g c (r - 1) changed)) c"
        using "1.prems" True by (intro "1.IH"(2) [OF guard stay]) auto
      moreover have "gravityRows g c r changed = gravityRows g c (r - 1) changed"
        by (subst gravityRows.simps) (simp only: guard stay simp_thms if_True if_False)
      ultimately show ?thesis by simp
    qed
  qed
qed

lemma gravityRows_fixed:
  "(\<forall>r'. 0 < r' \<and> r' \<le> r \<longrightarrow> \<not> (g ! r' ! c = None \<and> g ! (r' - 1) ! c \<noteq> None)) \<Longrightarrow>
   gravityRows g c r ch = (g, ch)"
proof (induction r)
  case 0
  show ?case by (subst gravityRows.simps) simp
next
  case (Suc r)
  then have "gravityRows g c r ch = (g, ch)" by simp
  moreover have "\<not> (g ! Suc r ! c = None \<and> g ! r ! c \<noteq> None)"
    using Suc.prems [rule_format, of "Suc r"] by simp
  ultimately show ?case by (subst gravityRows.simps) auto
qed

lemma gravityCols_Suc:
  "gravityCols g (Suc n) = gravityRows (fst (gravityCols g n)) n (GRID_ROWS - 1) (snd (gravityCols g n))"
  by (simp add: gravityCols_def split_beta)

lemma applyGravity_cols: "applyGravity g = gravityCols g GRID_COLS"
  by (simp add: applyGravity_def gravityCols_def)

lemma gravityCols_shape: "sameShape (fst (gravityCols g n)) g"
proof (induction n)
  case 0
  show ?case by (simp add: gravityCols_def)
next
  case (Suc n)
  show ?case
    unfolding gravityCols_Suc using gravityRows_shape Suc by (rule sameShape_trans)
qed

lemma settled_cong: "(\<And>r. g' ! r ! c = g ! r ! c) \<Longrightarrow> settled g' c = settled g c"
  by (simp add: settled_iff)

lemma gravityCols_settled:
  "wf_grid g \<Longrightarrow> n \<le> GRID_COLS \<Longrightarrow> c < n \<Longrightarrow> settled (fst (gravityCols g n)) c"
proof (induction n)
  case 0
  then show ?case by simp
next
  case (Suc n)
  let ?G = "fst (gravityCols g n)"
  have wf: "wf_grid ?G" using Suc.prems(1) sameShape_wf [OF gravityCols_shape] by simp
  show ?case
  proof (cases "c = n")
    case True
    have "settled (fst (gravityRows ?G n (GRID_ROWS - 1) (snd (gravityCols g n)))) n"
      using wf Suc.prems(2) by (intro gravityRows_settles) (auto simp: GRID_ROWS_def)
    with True show ?thesis by (simp add: gravityCols_Suc)
  next
    case False
    with Suc have "settled ?G c" by simp
    moreover have "settled (fst (gravityCols g (Suc n))) c = settled ?G c"
      unfolding gravityCols_Suc using False by (intro settled_cong gravityRows_other)
    ultimately show ?thesis by simp
  qed
qed

lemma gravityCols_fixed:
  "(\<And>c. c < n \<Longrightarrow> settled g c) \<Longrightarrow> gravityCols g n = (g, False)"
proof (induction n)
  case 0
  show ?case by (simp add: gravityCols_def)
next
  case (Suc n)
  then have "gravityCols g n = (g, False)" by simp
  moreover have "gravityRows g n (GRID_ROWS - 1) False = (g, False)"
    using Suc.prems [of n] by (intro gravityRows_fixed) (auto simp: settled_iff)
  ultimately show ?case by (simp add: gravityCols_Suc)
qed

text \<open>
  Claim C3.  On a grid of 10 rows and 6 columns, \<open>applyGravity\<close> applied to its own result
  returns that result again, with \<open>changed\<close> false, and in the result no column has a
  block with an empty cell directly beneath it.
\<close>

theorem applyGravity_idempotent:
  assumes "wf_grid g"
  shows "fst (applyGravity (fst (applyGravity g))) = fst (applyGravity g) \<and>
         snd (applyGravity (fst (applyGravity g))) = False \<and>
         list_all (settled (fst (applyGravity g))) [0..<GRID_COLS]"
proof -
  have s: "settled (fst (applyGravity g)) c" if "c < GRID_COLS" for c
    unfolding applyGravity_cols using assms that by (intro gravityCols_settled) auto
  have "gravityCols (fst (applyGravity g)) GRID_COLS = (fst (applyGravity g), False)"
    by (rule gravityCols_fixed) (rule s)
  then have "applyGravity (fst (applyGravity g)) = (fst (applyGravity g), False)"
    by (simp only: applyGravity_cols)
  with s show ?thesis by (simp add: list_all_iff)
qed

theorem applyGravity_idempotent_witness:
  "wf_grid (removeSelected demoGrid [''a5'']) \<and>
   fst (applyGravity (fst (applyGravity (removeSelected demoGrid [''a5''])))) =
     fst (applyGravity (removeSelected demoGrid [''a5'']))"
  using applyGravity_idempotent [of "removeSelected demoGrid [''a5'']"]
  by (simp add: wf_removeSelected wf_demoGrid)

section \<open>Fields and ids of the blocks\<close>

lemma set_occupied:
  "set (occupied g) = {(r, c). r < GRID_ROWS \<and> c < GRID_COLS \<and> g ! r ! c \<noteq> None}"
  by (auto simp: occupied_def positions_def)

lemma synced_iff:
  "synced g \<longleftrightarrow>
   (\<forall>r c b. r < GRID_ROWS \<and> c < GRID_COLS \<and> g ! r ! c = Some b \<longrightarrow> row b = r \<and> col b = c)"
  by (simp add: synced_def list_all_iff set_occupied) (metis option.sel)

lemma uniqueIds_iff:
  "uniqueIds g \<longleftrightarrow>
   (\<forall>r c r' c' b b'. r < GRID_ROWS \<and> c < GRID_COLS \<and> r' < GRID_ROWS \<and> c' < GRID_COLS \<and>
      g ! r ! c = Some b \<and> g ! r' ! c' = Some b' \<and> id_b b = id_b b' \<longrightarrow> r = r' \<and> c = c')"
  (is "_ \<longleftrightarrow> ?R")
proof -
  let ?F = "\<lambda>(r, c). id_b (the (g ! r ! c))"
  have d: "distinct (occupied g)"
    by (simp add: occupied_def positions_def distinct_product)
  have "inj_on ?F (set (occupied g)) \<longleftrightarrow> ?R"
  proof
    assume inj: "inj_on ?F (set (occupied g))"
    show ?R
    proof (intro allI impI)
      fix r c r' c' b b'
      assume a: "r < GRID_ROWS \<and> c < GRID_COLS \<and> r' < GRID_ROWS \<and> c' < GRID_COLS \<and>
        g ! r ! c = Some b \<and> g ! r' ! c' = Some b' \<and> id_b b = id_b b'"
      then have "?F (r, c) = ?F (r', c')" "(r, c) \<in> set (occupied g)" "(r', c') \<in> set (occupied g)"
        by (simp_all add: set_occupied)
      with inj have "(r, c) = (r', c')" by (rule inj_onD)
      then show "r = r' \<and> c = c'" by simp
    qed
  next
    assume R: ?R
    show "inj_on ?F (set (occupied g))"
    proof (rule inj_onI)
      fix p q assume p: "p \<in> set (occupied g)" and q: "q \<in> set (occupied g)" and e: "?F p = ?F q"
      obtain r c where pr: "p = (r, c)" by (cases p)
      obtain r' c' where qr: "q = (r', c')" by (cases q)
      from p pr obtain b where b: "r < GRID_ROWS" "c < GRID_COLS" "g ! r ! c = Some b"
        by (auto simp: set_occupied)
      from q qr obtain b' where b': "r' < GRID_ROWS" "c' < GRID_COLS" "g ! r' ! c' = Some b'"
        by (auto simp: set_occupied)
      from e pr qr b b' have "id_b b = id_b b'" by simp
      with R [rule_format, of r c r' c' b b'] b b' pr qr show "p = q" by simp
    qed
  qed
  with d show ?thesis by (simp add: uniqueIds_def distinct_map)
qed

lemma present_cell:
  assumes "wf_grid g"
  shows "present g i \<longleftrightarrow> (\<exists>r c b. r < GRID_ROWS \<and> c < GRID_COLS \<and> g ! r ! c = Some b \<and> id_b b = i)"
proof -
  have "b \<in> set (blocks g) \<longleftrightarrow> (\<exists>r c. r < GRID_ROWS \<and> c < GRID_COLS \<and> g ! r ! c = Some b)" for b
  proof
    assume "b \<in> set (blocks g)"
    then obtain rw where rw: "rw \<in> set g" "Some b \<in> set rw"
      by (force simp: blocks_def)
    then obtain r where r: "r < length g" "g ! r = rw" by (auto simp: in_set_conv_nth)
    from rw obtain c where c: "c < length rw" "rw ! c = Some b" by (auto simp: in_set_conv_nth)
    from r c assms have "r < GRID_ROWS \<and> c < GRID_COLS \<and> g ! r ! c = Some b"
      by (auto simp: wf_grid_iff)
    then show "\<exists>r c. r < GRID_ROWS \<and> c < GRID_COLS \<and> g ! r ! c = Some b"
      by blast
  next
    assume "\<exists>r c. r < GRID_ROWS \<and> c < GRID_COLS \<and> g ! r ! c = Some b"
    then obtain r c where "r < GRID_ROWS" "c < GRID_COLS" "g ! r ! c = Some b" by blast
    with assms have "g ! r \<in> set g" "Some b \<in> set (g ! r)"
      by (auto simp: wf_grid_iff in_set_conv_nth) 
    then show "b \<in> set (blocks g)" by (rule cell_in_blocks)
  qed
  then show ?thesis by (simp add: present_iff image_iff Bex_def) blast
qed

text \<open>initGame\<close>

lemma synced_initGrid: "synced (initGrid src)"
  unfolding synced_iff
proof (intro allI impI)
  fix r c b
  assume a: "r < GRID_ROWS \<and> c < GRID_COLS \<and> initGrid src ! r ! c = Some b"
  then have "initGrid src ! r ! c =
     (if GRID_ROWS - INITIAL_ROWS \<le> r then Some (newBlock (src r c) r c) else None)"
    by (intro initGrid_nth) simp_all
  with a have "b = newBlock (src r c) r c" by (simp split: if_splits)
  then show "row b = r \<and> col b = c" by (simp add: newBlock_def)
qed

lemma uniqueIds_initGrid:
  assumes "freshInit src"
  shows "uniqueIds (initGrid src)"
proof -
  from assms have inj: "inj_on (\<lambda>(r, c). fst (src r c))
      (set (List.product [GRID_ROWS - INITIAL_ROWS..<GRID_ROWS] [0..<GRID_COLS]))"
    by (simp add: freshInit_def distinct_map)
  show ?thesis
    unfolding uniqueIds_iff
  proof (intro allI impI)
    fix r c r' c' b b'
    assume a: "r < GRID_ROWS \<and> c < GRID_COLS \<and> r' < GRID_ROWS \<and> c' < GRID_COLS \<and>
      initGrid src ! r ! c = Some b \<and> initGrid src ! r' ! c' = Some b' \<and> id_b b = id_b b'"
    have n: "initGrid src ! x ! y = Some z \<Longrightarrow> x < GRID_ROWS \<Longrightarrow> y < GRID_COLS \<Longrightarrow>
        GRID_ROWS - INITIAL_ROWS \<le> x \<and> id_b z = fst (src x y)" for x y z
      using initGrid_nth [of x y src] by (auto simp: newBlock_def split: if_splits)
    from a n [of r c b] n [of r' c' b']
    have "GRID_ROWS - INITIAL_ROWS \<le> r" "GRID_ROWS - INITIAL_ROWS \<le> r'"
      and "fst (src r c) = fst (src r' c')"
      by simp_all
    with a inj_onD [OF inj, of "(r, c)" "(r', c')"] show "r = r' \<and> c = c'"
      by auto
  qed
qed

text \<open>addRow\<close>

lemma addRowGrid_Some:
  assumes "wf_grid g" "r < GRID_ROWS" "c < GRID_COLS" "addRowGrid src g ! r ! c = Some b"
  shows "(r = GRID_ROWS - 1 \<and> b = newBlock (src c) r c) \<or>
         (Suc r < GRID_ROWS \<and> (\<exists>z. g ! Suc r ! c = Some z \<and> b = z\<lparr>row := r\<rparr>))"
  using assms by (auto simp: addRowGrid_nth GRID_ROWS_def split: if_splits)

lemma synced_addRowGrid:
  assumes wf: "wf_grid g" and s: "synced g"
  shows "synced (addRowGrid src g)"
  unfolding synced_iff
proof (intro allI impI)
  fix r c b
  assume a: "r < GRID_ROWS \<and> c < GRID_COLS \<and> addRowGrid src g ! r ! c = Some b"
  then have "(r = GRID_ROWS - 1 \<and> b = newBlock (src c) r c) \<or>
         (Suc r < GRID_ROWS \<and> (\<exists>z. g ! Suc r ! c = Some z \<and> b = z\<lparr>row := r\<rparr>))"
    using wf by (intro addRowGrid_Some) auto
  then show "row b = r \<and> col b = c"
  proof
    assume "r = GRID_ROWS - 1 \<and> b = newBlock (src c) r c"
    then show ?thesis by (simp add: newBlock_def)
  next
    assume "Suc r < GRID_ROWS \<and> (\<exists>z. g ! Suc r ! c = Some z \<and> b = z\<lparr>row := r\<rparr>)"
    then obtain z where z: "Suc r < GRID_ROWS" "g ! Suc r ! c = Some z" "b = z\<lparr>row := r\<rparr>"
      by blast
    with s a have "col z = c" unfolding synced_iff by blast
    with z show ?thesis by simp
  qed
qed

lemma uniqueIds_addRowGrid:
  assumes wf: "wf_grid g" and u: "uniqueIds g" and f: "freshRow g src"
  shows "uniqueIds (addRowGrid src g)"
  unfolding uniqueIds_iff
proof (intro allI impI)
  fix r c r' c' b b'
  assume a: "r < GRID_ROWS \<and> c < GRID_COLS \<and> r' < GRID_ROWS \<and> c' < GRID_COLS \<and>
      addRowGrid src g ! r ! c = Some b \<and> addRowGrid src g ! r' ! c' = Some b' \<and> id_b b = id_b b'"
  from f have d: "inj_on (\<lambda>c. fst (src c)) {0..<GRID_COLS}"
    and np: "\<And>c. c < GRID_COLS \<Longrightarrow> \<not> present g (fst (src c))"
    by (auto simp: freshRow_def distinct_map list_all_iff)
  have absent: "id_b z \<noteq> fst (src y)"
    if "x < GRID_ROWS" "w < GRID_COLS" "g ! x ! w = Some z" "y < GRID_COLS" for x w z y
    using np [OF that(4)] that(1-3) unfolding present_cell [OF wf] by blast
  from a wf have 1: "(r = GRID_ROWS - 1 \<and> b = newBlock (src c) r c) \<or>
         (Suc r < GRID_ROWS \<and> (\<exists>z. g ! Suc r ! c = Some z \<and> b = z\<lparr>row := r\<rparr>))"
    by (intro addRowGrid_Some) auto
  from a wf have 2: "(r' = GRID_ROWS - 1 \<and> b' = newBlock (src c') r' c') \<or>
         (Suc r' < GRID_ROWS \<and> (\<exists>z. g ! Suc r' ! c' = Some z \<and> b' = z\<lparr>row := r'\<rparr>))"
    by (intro addRowGrid_Some) auto
  from a have eq: "id_b b = id_b b'" and c: "c < GRID_COLS" "c' < GRID_COLS" by auto
  from 1 show "r = r' \<and> c = c'"
  proof
    assume n1: "r = GRID_ROWS - 1 \<and> b = newBlock (src c) r c"
    from 2 show ?thesis
    proof
      assume n2: "r' = GRID_ROWS - 1 \<and> b' = newBlock (src c') r' c'"
      with n1 eq have "fst (src c) = fst (src c')" by (simp add: newBlock_def)
      with inj_onD [OF d, of c c'] c have "c = c'" by simp
      with n1 n2 show ?thesis by simp
    next
      assume "Suc r' < GRID_ROWS \<and> (\<exists>z. g ! Suc r' ! c' = Some z \<and> b' = z\<lparr>row := r'\<rparr>)"
      then obtain z where z: "Suc r' < GRID_ROWS" "g ! Suc r' ! c' = Some z" "b' = z\<lparr>row := r'\<rparr>"
        by blast
      from absent [OF z(1) c(2) z(2) c(1)] n1 eq z(3) show ?thesis by (simp add: newBlock_def)
    qed
  next
    assume "Suc r < GRID_ROWS \<and> (\<exists>z. g ! Suc r ! c = Some z \<and> b = z\<lparr>row := r\<rparr>)"
    then obtain z where z: "Suc r < GRID_ROWS" "g ! Suc r ! c = Some z" "b = z\<lparr>row := r\<rparr>"
      by blast
    from 2 show ?thesis
    proof
      assume n2: "r' = GRID_ROWS - 1 \<and> b' = newBlock (src c') r' c'"
      from absent [OF z(1) c(1) z(2) c(2)] n2 eq z(3) show ?thesis by (simp add: newBlock_def)
    next
      assume "Suc r' < GRID_ROWS \<and> (\<exists>z. g ! Suc r' ! c' = Some z \<and> b' = z\<lparr>row := r'\<rparr>)"
      then obtain z' where z': "Suc r' < GRID_ROWS" "g ! Suc r' ! c' = Some z'" "b' = z'\<lparr>row := r'\<rparr>"
        by blast
      from eq z(3) z'(3) have "id_b z = id_b z'" by simp
      with z(1,2) z'(1,2) c have "Suc r = Suc r' \<and> c = c'"
        by (intro u [unfolded uniqueIds_iff, rule_format, of "Suc r" c "Suc r'" c' z z']) blast
      then show ?thesis by simp
    qed
  qed
qed

text \<open>Removal of the selected blocks\<close>

lemma removeSelected_nth:
  "wf_grid g \<Longrightarrow> r < GRID_ROWS \<Longrightarrow> c < GRID_COLS \<Longrightarrow>
   removeSelected g sel ! r ! c = removeCell sel (g ! r ! c)"
  by (simp add: removeSelected_def wf_grid_iff)

lemma removeCell_Some: "removeCell sel x = Some b \<longleftrightarrow> x = Some b \<and> id_b b \<notin> set sel"
  by (cases x) (auto simp: removeCell_def)

lemma synced_removeSelected:
  assumes "wf_grid g" "synced g"
  shows "synced (removeSelected g sel)"
  unfolding synced_iff
proof (intro allI impI)
  fix r c b
  assume "r < GRID_ROWS \<and> c < GRID_COLS \<and> removeSelected g sel ! r ! c = Some b"
  then have "r < GRID_ROWS \<and> c < GRID_COLS \<and> g ! r ! c = Some b"
    using assms(1) by (auto simp: removeSelected_nth removeCell_Some)
  with assms(2) show "row b = r \<and> col b = c" unfolding synced_iff by blast
qed

lemma uniqueIds_removeSelected:
  assumes "wf_grid g" "uniqueIds g"
  shows "uniqueIds (removeSelected g sel)"
  unfolding uniqueIds_iff
proof (intro allI impI)
  fix r c r' c' b b'
  assume "r < GRID_ROWS \<and> c < GRID_COLS \<and> r' < GRID_ROWS \<and> c' < GRID_COLS \<and>
      removeSelected g sel ! r ! c = Some b \<and> removeSelected g sel ! r' ! c' = Some b' \<and>
      id_b b = id_b b'"
  then have "r < GRID_ROWS \<and> c < GRID_COLS \<and> r' < GRID_ROWS \<and> c' < GRID_COLS \<and>
      g ! r ! c = Some b \<and> g ! r' ! c' = Some b' \<and> id_b b = id_b b'"
    using assms(1) by (auto simp: removeSelected_nth removeCell_Some)
  with assms(2) [unfolded uniqueIds_iff, rule_format, of r c r' c' b b'] show "r = r' \<and> c = c'" .
qed

lemma fall_nth:
  assumes "0 < r" "inGrid g r c" "inGrid g (r - 1) c"
  shows "setCell (setCell g r c v) (r - 1) c None ! x ! y =
     (if x = r - 1 \<and> y = c then None else if x = r \<and> y = c then v else g ! x ! y)"
  using assms by (simp add: nth_setCell del: One_nat_def)

lemma gravityRows_inv:
  assumes step: "\<And>g r c b. P g \<Longrightarrow> 0 < r \<Longrightarrow> inGrid g r c \<Longrightarrow> inGrid g (r - 1) c \<Longrightarrow>
      g ! r ! c = None \<Longrightarrow> g ! (r - 1) ! c = Some b \<Longrightarrow>
      P (setCell (setCell g r c (Some (b\<lparr>row := r\<rparr>))) (r - 1) c None)"
    and init: "P g"
  shows "P (fst (gravityRows g c r ch))"
  using init
proof (induction g c r ch rule: gravityRows.induct)
  case (1 g c r changed)
  show ?case
  proof (cases "0 < r \<and> inGrid g r c \<and> inGrid g (r - 1) c")
    case False
    then have "gravityRows g c r changed = (g, changed)"
      by (subst gravityRows.simps) (simp only: if_False)
    with "1.prems" show ?thesis by simp
  next
    case guard: True
    show ?thesis
    proof (cases "g ! r ! c = None \<and> g ! (r - 1) ! c \<noteq> None")
      case move: True
      let ?g = "setCell (setCell g r c (Some ((the (g ! (r - 1) ! c))\<lparr>row := r\<rparr>))) (r - 1) c None"
      from move obtain b where b: "g ! (r - 1) ! c = Some b" by auto
      have "P ?g" using step [OF "1.prems" _ _ _ _ b] guard move b by simp
      then have "P (fst (gravityRows ?g c (GRID_ROWS - 1) True))"
        by (rule "1.IH"(1) [OF guard move])
      moreover have "gravityRows g c r changed = gravityRows ?g c (GRID_ROWS - 1) True"
        by (subst gravityRows.simps) (simp only: guard move simp_thms if_True)
      ultimately show ?thesis by simp
    next
      case stay: False
      have "P (fst (gravityRows g c (r - 1) changed))"
        using "1.prems" by (rule "1.IH"(2) [OF guard stay])
      moreover have "gravityRows g c r changed = gravityRows g c (r - 1) changed"
        by (subst gravityRows.simps) (simp only: guard stay simp_thms if_True if_False)
      ultimately show ?thesis by simp
    qed
  qed
qed

lemma gravityCols_inv:
  assumes "\<And>g c r ch. P g \<Longrightarrow> P (fst (gravityRows g c r ch))" and "P g"
  shows "P (fst (gravityCols g n))"
  by (induction n) (simp_all add: gravityCols_def assms split_beta)

text \<open>One fall keeps the fields in step with the cells.\<close>

lemma fall_synced:
  assumes wf: "wf_grid g" and s: "synced g" and r: "0 < r" "inGrid g r c" "inGrid g (r - 1) c"
    and b: "g ! (r - 1) ! c = Some b"
  shows "synced (setCell (setCell g r c (Some (b\<lparr>row := r\<rparr>))) (r - 1) c None)"
  unfolding synced_iff
proof (intro allI impI)
  fix x y z
  assume a: "x < GRID_ROWS \<and> y < GRID_COLS \<and>
    setCell (setCell g r c (Some (b\<lparr>row := r\<rparr>))) (r - 1) c None ! x ! y = Some z"
  from r wf have rc: "r - 1 < GRID_ROWS" "c < GRID_COLS" by (auto simp: wf_inGrid)
  from s b rc have cb: "col b = c" unfolding synced_iff by blast
  show "row z = x \<and> col z = y"
  proof (cases "x = r \<and> y = c")
    case True
    with a r have "z = b\<lparr>row := r\<rparr>" by (simp add: fall_nth del: One_nat_def split: if_splits)
    with True cb show ?thesis by simp
  next
    case False
    with a r have "g ! x ! y = Some z" by (simp add: fall_nth del: One_nat_def split: if_splits)
    with s a show ?thesis unfolding synced_iff by blast
  qed
qed

lemma fall_uniqueIds:
  assumes wf: "wf_grid g" and u: "uniqueIds g" and r: "0 < r" "inGrid g r c" "inGrid g (r - 1) c"
    and b: "g ! (r - 1) ! c = Some b"
  shows "uniqueIds (setCell (setCell g r c (Some (b\<lparr>row := r\<rparr>))) (r - 1) c None)"
    (is "uniqueIds ?g")
  unfolding uniqueIds_iff
proof (intro allI impI)
  fix x y x' y' z z'
  assume a: "x < GRID_ROWS \<and> y < GRID_COLS \<and> x' < GRID_ROWS \<and> y' < GRID_COLS \<and>
    ?g ! x ! y = Some z \<and> ?g ! x' ! y' = Some z' \<and> id_b z = id_b z'"
  from r wf have rc: "r - 1 < GRID_ROWS" "c < GRID_COLS" by (auto simp: wf_inGrid)
  have origin: "\<exists>x0 z0. x0 < GRID_ROWS \<and> g ! x0 ! w = Some z0 \<and> id_b z0 = id_b k \<and>
      (if v = r \<and> w = c then x0 = r - 1 else x0 = v \<and> \<not> (v = r - 1 \<and> w = c))"
    if "v < GRID_ROWS" "?g ! v ! w = Some k" for v w k
  proof (cases "v = r \<and> w = c")
    case True
    with that r have "k = b\<lparr>row := r\<rparr>" by (simp add: fall_nth del: One_nat_def split: if_splits)
    with True b rc have "r - 1 < GRID_ROWS \<and> g ! (r - 1) ! w = Some b \<and> id_b b = id_b k \<and>
      (if v = r \<and> w = c then r - 1 = r - 1 else r - 1 = v \<and> \<not> (v = r - 1 \<and> w = c))"
      by simp
    then show ?thesis by blast
  next
    case False
    with that r have "g ! v ! w = Some k \<and> \<not> (v = r - 1 \<and> w = c)"
      by (simp add: fall_nth del: One_nat_def split: if_splits)
    with False that have "v < GRID_ROWS \<and> g ! v ! w = Some k \<and> id_b k = id_b k \<and>
      (if v = r \<and> w = c then v = r - 1 else v = v \<and> \<not> (v = r - 1 \<and> w = c))"
      by auto
    then show ?thesis by blast
  qed
  from a origin [of x y z] obtain x0 z0 where 0: "x0 < GRID_ROWS" "g ! x0 ! y = Some z0"
    "id_b z0 = id_b z" "if x = r \<and> y = c then x0 = r - 1 else x0 = x \<and> \<not> (x = r - 1 \<and> y = c)"
    by blast
  from a origin [of x' y' z'] obtain x1 z1 where 1: "x1 < GRID_ROWS" "g ! x1 ! y' = Some z1"
    "id_b z1 = id_b z'" "if x' = r \<and> y' = c then x1 = r - 1 else x1 = x' \<and> \<not> (x' = r - 1 \<and> y' = c)"
    by blast
  from a 0(3) 1(3) have "id_b z0 = id_b z1" by simp
  with 0(1,2) 1(1,2) a have "x0 = x1 \<and> y = y'"
    by (intro u [unfolded uniqueIds_iff, rule_format, of x0 y x1 y' z0 z1]) blast
  then have e: "x0 = x1" "y = y'" by simp_all
  show "x = x' \<and> y = y'"
  proof (cases "x = r \<and> y = c")
    case True
    with 0(4) e have "x1 = r - 1 \<and> y' = c" by simp
    with 1(4) have "x' = r" by (simp split: if_splits)
    with True e show ?thesis by simp
  next
    case False
    with 0(4) have 2: "x0 = x" "\<not> (x = r - 1 \<and> y = c)" by simp_all
    show ?thesis
    proof (cases "x' = r \<and> y' = c")
      case True
      with 1(4) have "x1 = r - 1" by simp
      with 2 e True show ?thesis by simp
    next
      case False
      with 1(4) have "x1 = x'" by simp
      with 2 e show ?thesis by simp
    qed
  qed
qed

lemma fall_wf:
  "wf_grid (setCell (setCell g r c v) r' c' v') = wf_grid g"
proof -
  have "sameShape (setCell (setCell g r c v) r' c' v') g" by simp
  then show ?thesis by (rule sameShape_wf)
qed

lemma gravityRows_synced:
  assumes "wf_grid g \<and> synced g"
  shows "wf_grid (fst (gravityRows g c r ch)) \<and> synced (fst (gravityRows g c r ch))"
proof (rule gravityRows_inv [where P = "\<lambda>g. wf_grid g \<and> synced g"])
  show "wf_grid g \<and> synced g" by fact
next
  fix g :: grid and r c b
  assume a: "wf_grid g \<and> synced g" and r: "0 < r" "inGrid g r c" "inGrid g (r - 1) c"
    and b: "g ! (r - 1) ! c = Some b"
  from a have "wf_grid (setCell (setCell g r c (Some (b\<lparr>row := r\<rparr>))) (r - 1) c None)"
    by (simp only: fall_wf)
  moreover from a have "synced (setCell (setCell g r c (Some (b\<lparr>row := r\<rparr>))) (r - 1) c None)"
    by (intro fall_synced r b) simp_all
  ultimately show "wf_grid (setCell (setCell g r c (Some (b\<lparr>row := r\<rparr>))) (r - 1) c None) \<and>
      synced (setCell (setCell g r c (Some (b\<lparr>row := r\<rparr>))) (r - 1) c None)" ..
qed

lemma gravityRows_grid_inv:
  assumes "grid_inv g"
  shows "grid_inv (fst (gravityRows g c r ch))"
proof (rule gravityRows_inv [where P = grid_inv])
  show "grid_inv g" by fact
next
  fix g :: grid and r c b
  assume a: "grid_inv g" and r: "0 < r" "inGrid g r c" "inGrid g (r - 1) c"
    and b: "g ! (r - 1) ! c = Some b"
  let ?g = "setCell (setCell g r c (Some (b\<lparr>row := r\<rparr>))) (r - 1) c None"
  from a have g: "wf_grid g" "synced g" "uniqueIds g" by (simp_all add: grid_inv_def)
  from g(1) have "wf_grid ?g" by (simp only: fall_wf)
  moreover from g(1,2) r b have "synced ?g" by (rule fall_synced)
  moreover from g(1,3) r b have "uniqueIds ?g" by (rule fall_uniqueIds)
  ultimately show "grid_inv ?g" by (simp only: grid_inv_def simp_thms)
qed

lemma applyGravity_synced:
  "wf_grid g \<and> synced g \<Longrightarrow> wf_grid (fst (applyGravity g)) \<and> synced (fst (applyGravity g))"
  unfolding applyGravity_cols
  by (rule gravityCols_inv [where P = "\<lambda>g. wf_grid g \<and> synced g"]) (rule gravityRows_synced)

lemma applyGravity_grid_inv: "grid_inv g \<Longrightarrow> grid_inv (fst (applyGravity g))"
  unfolding applyGravity_cols
  by (rule gravityCols_inv [where P = grid_inv]) (rule gravityRows_grid_inv)

lemma reachable_synced: "reachable g \<Longrightarrow> wf_grid g \<and> synced g"
proof (induction rule: reachable.induct)
  case (init src)
  show ?case by (simp add: wf_initGrid synced_initGrid)
next
  case (inject g src)
  then show ?case by (simp add: wf_addRowGrid synced_addRowGrid)
next
  case (remove g sel)
  then show ?case by (simp add: wf_removeSelected synced_removeSelected)
next
  case (gravity g)
  then show ?case by (intro applyGravity_synced)
qed

lemma reachableFresh_inv: "reachableFresh g \<Longrightarrow> grid_inv g"
proof (induction rule: reachableFresh.induct)
  case (init src)
  then show ?case by (simp add: grid_inv_def wf_initGrid synced_initGrid uniqueIds_initGrid)
next
  case (inject g src)
  then show ?case
    by (simp add: grid_inv_def wf_addRowGrid synced_addRowGrid uniqueIds_addRowGrid)
next
  case (remove g sel)
  then show ?case
    by (simp add: grid_inv_def wf_removeSelected synced_removeSelected uniqueIds_removeSelected)
next
  case (gravity g)
  from gravity.IH show ?case by (rule applyGravity_grid_inv)
qed

text \<open>
  Claim C1, as the code has it.  In every grid that the operations produce, the grid has
  10 rows of 6 cells and the \<open>row\<close> and \<open>col\<close> fields of every block are the indices
  of its cell.  When moreover every id that \<open>generateId\<close> returned was fresh (different
  from the others of the same draw and from the ids in the grid), no two cells hold
  blocks with the same id.
\<close>

theorem grid_invariant_fresh:
  "(reachable g \<longrightarrow> wf_grid g \<and> synced g) \<and> (reachableFresh g \<longrightarrow> grid_inv g)"
  using reachable_synced reachableFresh_inv by blast

text \<open>
  The ids come from \<open>Math.random()\<close> and nothing compares them: when the source returns
  the same id twice, the first grid already holds two blocks with that id.
\<close>

theorem grid_invariant_counterexample:
  "reachable (initGrid sameIds) \<and> \<not> uniqueIds (initGrid sameIds)"
proof
  show "reachable (initGrid sameIds)" by (rule reachable.init)
next
  have cells: "initGrid sameIds ! 9 ! 0 = Some (newBlock (sameIds 9 0) 9 0)"
       "initGrid sameIds ! 9 ! 2 = Some (newBlock (sameIds 9 2) 9 2)"
    by (simp_all add: initGrid_nth GRID_ROWS_def GRID_COLS_def INITIAL_ROWS_def)
  have ids: "id_b (newBlock (sameIds 9 0) 9 0) = id_b (newBlock (sameIds 9 2) 9 2)"
    by (simp add: newBlock_def sameIds_def)
  show "\<not> uniqueIds (initGrid sameIds)"
  proof
    assume u: "uniqueIds (initGrid sameIds)"
    have "(9::nat) = 9 \<and> (0::nat) = 2"
      by (rule u [unfolded uniqueIds_iff, rule_format, of 9 0 9 2
            "newBlock (sameIds 9 0) 9 0" "newBlock (sameIds 9 2) 9 2"])
         (simp add: cells ids GRID_ROWS_def GRID_COLS_def)
    then show False by simp
  qed
qed

lemma freshInit_freshIds: "freshInit freshIds"
  by code_simp

theorem grid_invariant_fresh_witness:
  "reachableFresh (fst (applyGravity (removeSelected (initGrid freshIds) [''rrrrrrrrr'']))) \<and>
   grid_inv (fst (applyGravity (removeSelected (initGrid freshIds) [''rrrrrrrrr''])))"
proof -
  have "reachableFresh (fst (applyGravity (removeSelected (initGrid freshIds) [''rrrrrrrrr''])))"
    by (intro reachableFresh.gravity reachableFresh.remove reachableFresh.init freshInit_freshIds)
  with grid_invariant_fresh [of "fst (applyGravity (removeSelected (initGrid freshIds) [''rrrrrrrrr'']))"]
  show ?thesis by simp
qed

section \<open>A match\<close>

lemma removeCell_blocks:
  "map the (filter (\<lambda>x. x \<noteq> None) (map (removeCell sel) xs)) =
   filter (\<lambda>b. id_b b \<notin> set sel) (map the (filter (\<lambda>x. x \<noteq> None) xs))"
proof (induction xs)
  case Nil
  show ?case by simp
next
  case (Cons x xs)
  then show ?case by (cases x) (simp_all add: removeCell_def)
qed

lemma blocks_removeSelected:
  "blocks (removeSelected g sel) = filter (\<lambda>b. id_b b \<notin> set sel) (blocks g)"
proof -
  have "concat (removeSelected g sel) = map (removeCell sel) (concat g)"
    by (simp add: removeSelected_def map_concat)
  then show ?thesis unfolding blocks_def by (simp only: removeCell_blocks)
qed

lemma removed_count:
  "length (blocks (removeSelected g sel)) + length (selectedBlocks g sel) = length (blocks g)"
proof -
  have "length (filter (\<lambda>b. id_b b \<in> set sel) (blocks g)) +
        length (filter (\<lambda>b. \<not> id_b b \<in> set sel) (blocks g)) = length (blocks g)"
    by (rule sum_length_filter_compl)
  then show ?thesis by (simp add: blocks_removeSelected selectedBlocks_def)
qed

lemma column_removeSelected:
  assumes "wf_grid g" "c < GRID_COLS"
  shows "column (removeSelected g sel) c = map (removeCell sel) (column g c)"
proof -
  have "map (removeCell sel) rw ! c = removeCell sel (rw ! c)" if "rw \<in> set g" for rw
    using that assms by (simp add: wf_grid_def list_all_iff)
  then show ?thesis by (simp add: column_def removeSelected_def)
qed

lemma colContent_removeSelected:
  assumes "wf_grid g" "c < GRID_COLS"
  shows "colContent (removeSelected g sel) c = filter (\<lambda>b. id_b b \<notin> set sel) (colContent g c)"
proof -
  have "colContent (removeSelected g sel) c =
        map (\<lambda>b. b\<lparr>row := 0\<rparr>) (filter (\<lambda>b. id_b b \<notin> set sel) (colBlocks g c))"
    by (simp only: colContent_def colBlocks_def column_removeSelected [OF assms] removeCell_blocks)
  also have "\<dots> = filter (\<lambda>b. id_b b \<notin> set sel) (map (\<lambda>b. b\<lparr>row := 0\<rparr>) (colBlocks g c))"
    by (simp add: filter_map comp_def)
  finally show ?thesis by (simp only: colContent_def)
qed

text \<open>A fall keeps the blocks of the column and their order.\<close>

lemma content_fall:
  "Suc i < length xs \<Longrightarrow> xs ! i = Some b \<Longrightarrow> xs ! Suc i = None \<Longrightarrow> f b' = f b \<Longrightarrow>
   map f (map the (filter (\<lambda>x. x \<noteq> None) (xs[Suc i := Some b', i := None]))) =
   map f (map the (filter (\<lambda>x. x \<noteq> None) xs))"
proof (induction xs arbitrary: i)
  case Nil
  then show ?case by simp
next
  case (Cons x xs)
  show ?case
  proof (cases i)
    case 0
    with Cons.prems show ?thesis by (cases xs) auto
  next
    case (Suc j)
    with Cons.prems Cons.IH [of j] show ?thesis by auto
  qed
qed

lemma column_setCell_other:
  assumes "c' \<noteq> c"
  shows "column (setCell g r c v) c' = column g c'"
proof (rule nth_equalityI)
  show "length (column (setCell g r c v) c') = length (column g c')" by simp
next
  fix i assume "i < length (column (setCell g r c v) c')"
  then have "i < length g" by simp
  then show "column (setCell g r c v) c' ! i = column g c' ! i"
    using assms by (simp add: column_nth nth_setCell)
qed

lemma fall_colContent:
  assumes r: "0 < r" "inGrid g r c" "inGrid g (r - 1) c"
    and e: "g ! r ! c = None" and b: "g ! (r - 1) ! c = Some b"
  shows "colContent (setCell (setCell g r c (Some (b\<lparr>row := r\<rparr>))) (r - 1) c None) c' =
         colContent g c'"
proof (cases "c' = c")
  case False
  then show ?thesis by (simp add: colContent_def colBlocks_def column_setCell_other)
next
  case True
  obtain i where i: "r = Suc i" using r(1) by (cases r) auto
  have col: "column (setCell (setCell g r c (Some (b\<lparr>row := r\<rparr>))) (r - 1) c None) c =
      (column g c)[Suc i := Some (b\<lparr>row := Suc i\<rparr>), i := None]"
    using r i by (simp add: column_setCell)
  have "map (\<lambda>b. b\<lparr>row := 0\<rparr>)
          (map the (filter (\<lambda>x. x \<noteq> None) ((column g c)[Suc i := Some (b\<lparr>row := Suc i\<rparr>), i := None]))) =
        map (\<lambda>b. b\<lparr>row := 0\<rparr>) (map the (filter (\<lambda>x. x \<noteq> None) (column g c)))"
    using r e b i by (intro content_fall) (auto simp: inGrid_def column_nth)
  with True col show ?thesis by (simp add: colContent_def colBlocks_def)
qed

lemma gravityRows_colContent: "colContent (fst (gravityRows g c r ch)) c' = colContent g c'"
proof -
  have "(\<lambda>g'. colContent g' c' = colContent g c') (fst (gravityRows g c r ch))"
  proof (rule gravityRows_inv [where P = "\<lambda>g'. colContent g' c' = colContent g c'"])
    show "colContent g c' = colContent g c'" ..
  next
    fix h :: grid and r c b
    assume "colContent h c' = colContent g c'" "0 < r" "inGrid h r c" "inGrid h (r - 1) c"
      "h ! r ! c = None" "h ! (r - 1) ! c = Some b"
    then show "colContent (setCell (setCell h r c (Some (b\<lparr>row := r\<rparr>))) (r - 1) c None) c' =
        colContent g c'"
      by (simp only: fall_colContent)
  qed
  then show ?thesis .
qed

lemma applyGravity_colContent: "colContent (fst (applyGravity g)) c = colContent g c"
proof -
  have "(\<lambda>g'. colContent g' c = colContent g c) (fst (gravityCols g GRID_COLS))"
    by (rule gravityCols_inv [where P = "\<lambda>g'. colContent g' c = colContent g c"])
       (simp_all only: gravityRows_colContent)
  then show ?thesis by (simp add: applyGravity_cols)
qed

lemma applyGravity_settled:
  "wf_grid g \<Longrightarrow> c < GRID_COLS \<Longrightarrow> settled (fst (applyGravity g)) c"
  unfolding applyGravity_cols by (rule gravityCols_settled) simp_all

lemma sumEffect_match:
  assumes "selSum (grid st) (selectedIds st) = target st" "target st \<noteq> 0"
  shows "sumEffect st u src =
     (if mode st = Some CLASSIC then addRow (matchUpdate (st\<lparr>currentSum := target st\<rparr>) u) src
      else matchUpdate (st\<lparr>currentSum := target st\<rparr>) u, None)"
  using assms by (simp add: sumEffect_def Let_def)

lemma matchUpdate_fields:
  "score (matchUpdate st u) = score st + int (length (selectedBlocks (grid st) (selectedIds st))) * 10"
  "target (matchUpdate st u) = getRandomTarget u"
  "selectedIds (matchUpdate st u) = []"
  "grid (matchUpdate st u) = fst (applyGravity (removeSelected (grid st) (selectedIds st)))"
  "mode (matchUpdate st u) = mode st" "isGameOver (matchUpdate st u) = isGameOver st"
  "timeLeft (matchUpdate st u) = timeLeft st"
  by (simp_all add: matchUpdate_def)

lemma matchUpdate_currentSum:
  "grid (matchUpdate (st\<lparr>currentSum := x\<rparr>) u) = grid (matchUpdate st u)"
  "score (matchUpdate (st\<lparr>currentSum := x\<rparr>) u) = score (matchUpdate st u)"
  "isGameOver (matchUpdate (st\<lparr>currentSum := x\<rparr>) u) = isGameOver st"
  "mode (matchUpdate (st\<lparr>currentSum := x\<rparr>) u) = mode st"
  by (simp_all add: matchUpdate_def)

lemma demo_sum_fall: "selSum demoGrid [''a5'', ''b3''] = 10"
  by (simp add: selSum_def selectedBlocks_def demo_blocks mk_def)

lemma demo_selected_fall: "length (selectedBlocks demoGrid [''a5'', ''b3'']) = 2"
  by (simp add: selectedBlocks_def demo_blocks mk_def)

lemma demo_selected_match: "length (selectedBlocks demoGrid [''b1'', ''b2'']) = 2"
  by (simp add: selectedBlocks_def demo_blocks mk_def)

lemma demo_fall_top: "\<not> topRowOccupied (fst (applyGravity (removeSelected demoGrid [''a5'', ''b3''])))"
  by code_simp

lemma demo_match_top: "topRowOccupied (fst (applyGravity (removeSelected demoGrid [''b1'', ''b2''])))"
  by code_simp

text \<open>A settled list: nothing empty directly beneath a block.\<close>

lemma settled_no_gap:
  assumes "\<And>i. Suc i < length xs \<Longrightarrow> xs ! i \<noteq> None \<Longrightarrow> xs ! Suc i \<noteq> None"
  shows "xs = replicate (length xs - length (filter (\<lambda>x. x \<noteq> None) xs)) None @
              filter (\<lambda>x. x \<noteq> None) xs"
  using assms
proof (induction xs)
  case Nil
  show ?case by simp
next
  case (Cons x xs)
  have tl: "xs ! i \<noteq> None \<Longrightarrow> xs ! Suc i \<noteq> None" if "Suc i < length xs" for i
    using Cons.prems [of "Suc i"] that by simp
  note IH = Cons.IH [OF tl]
  have le: "length (filter (\<lambda>x. x \<noteq> None) xs) \<le> length xs" by (rule length_filter_le)
  show ?case
  proof (cases x)
    case None
    have "x # xs = None # (replicate (length xs - length (filter (\<lambda>x. x \<noteq> None) xs)) None @
              filter (\<lambda>x. x \<noteq> None) xs)"
      using IH None by simp
    also have "\<dots> = replicate (Suc (length xs - length (filter (\<lambda>x. x \<noteq> None) xs))) None @
              filter (\<lambda>x. x \<noteq> None) xs"
      by simp
    finally show ?thesis using None le by (simp add: Suc_diff_le)
  next
    case (Some b)
    have all: "i < length xs \<Longrightarrow> xs ! i \<noteq> None" for i
    proof (induction i)
      case 0
      with Cons.prems [of 0] Some show ?case by simp
    next
      case (Suc i)
      then have "xs ! i \<noteq> None" by simp
      with tl [of i] Suc.prems show ?case by simp
    qed
    then have "filter (\<lambda>x. x \<noteq> None) xs = xs"
      by (auto simp: filter_id_conv in_set_conv_nth)
    with Some show ?thesis by simp
  qed
qed

lemma Some_the_filter: "map Some (map the (filter (\<lambda>x. x \<noteq> None) xs)) = filter (\<lambda>x. x \<noteq> None) xs"
  by (induction xs) auto

lemma settled_column:
  assumes wf: "wf_grid g" and s: "settled g c"
  shows "column g c = replicate (GRID_ROWS - length (colBlocks g c)) None @ map Some (colBlocks g c)"
proof -
  have len: "length (column g c) = GRID_ROWS" using wf by (simp add: wf_grid_iff)
  have "column g c ! i \<noteq> None \<Longrightarrow> column g c ! Suc i \<noteq> None" if "Suc i < length (column g c)" for i
  proof -
    from that len have i: "Suc i < GRID_ROWS" by simp
    with s have "\<not> (g ! Suc i ! c = None \<and> g ! (Suc i - 1) ! c \<noteq> None)"
      unfolding settled_iff by blast
    moreover have "column g c ! i = g ! i ! c" "column g c ! Suc i = g ! Suc i ! c"
      using i wf by (simp_all add: column_nth wf_grid_iff)
    ultimately show "column g c ! i \<noteq> None \<Longrightarrow> column g c ! Suc i \<noteq> None" by simp
  qed
  from settled_no_gap [of "column g c", OF this]
  have "column g c = replicate (length (column g c) - length (filter (\<lambda>x. x \<noteq> None) (column g c))) None @
              filter (\<lambda>x. x \<noteq> None) (column g c)" by blast
  then show ?thesis
    unfolding colBlocks_def Some_the_filter by (simp only: len length_map)
qed

lemma wf_applyGravity: "wf_grid (fst (applyGravity g)) = wf_grid g"
  unfolding applyGravity_cols using gravityCols_shape by (rule sameShape_wf)

lemma demo_fall_cells:
  "fst (applyGravity (removeSelected demoGrid [''a5'', ''b3''])) ! 0 ! 0 = None"
  "fst (applyGravity (removeSelected demoGrid [''a5'', ''b3''])) ! 2 ! 0 = Some (mk ''a1'' 1 2 0)"
  "fst (applyGravity (removeSelected demoGrid [''a5'', ''b3''])) ! 5 ! 0 = Some (mk ''a4'' 1 5 0)"
  "fst (applyGravity (removeSelected demoGrid [''a5'', ''b3''])) ! 9 ! 3 = None"
  by code_simp+

text \<open>
  Claim C4.  When the values of the selected blocks in the grid add up to the target
  (which is not 0 in a game), one run of the sum effect schedules no timer, adds 10 for
  each of these blocks to the score, draws a target between 10 and 25, and empties the
  selection.  The grid of the match is \<open>applyGravity\<close> of the grid without the selected
  blocks: the blocks left are those whose id is not selected, as many fewer as were
  selected.  This grid has 10 rows of 6 cells again; every column of it is empty at the
  top and holds at the bottom, without a gap, the blocks it held that are not selected,
  in the same order; and when the \<open>row\<close> and \<open>col\<close> fields were the indices of the cells
  before, they are so after.  In classic mode \<open>addRow\<close> then injects a row, unless the top
  row is occupied.
\<close>

theorem match_clears:
  assumes "selSum (grid st) (selectedIds st) = target st" and "target st \<noteq> 0"
    and "0 \<le> u" and "u < 1" and "wf_grid (grid st)"
  shows "snd (sumEffect st u src) = None \<and>
         score (fst (sumEffect st u src)) =
           score st + 10 * int (length (selectedBlocks (grid st) (selectedIds st))) \<and>
         10 \<le> target (fst (sumEffect st u src)) \<and> target (fst (sumEffect st u src)) \<le> 25 \<and>
         selectedIds (fst (sumEffect st u src)) = [] \<and>
         grid (fst (sumEffect st u src)) =
           (if mode st = Some CLASSIC \<and> \<not> topRowOccupied (grid (matchUpdate st u))
            then addRowGrid src (grid (matchUpdate st u)) else grid (matchUpdate st u)) \<and>
         grid (matchUpdate st u) = fst (applyGravity (removeSelected (grid st) (selectedIds st))) \<and>
         blocks (removeSelected (grid st) (selectedIds st)) =
           filter (\<lambda>b. id_b b \<notin> set (selectedIds st)) (blocks (grid st)) \<and>
         length (blocks (removeSelected (grid st) (selectedIds st))) +
           length (selectedBlocks (grid st) (selectedIds st)) = length (blocks (grid st)) \<and>
         (\<forall>c<GRID_COLS. settled (grid (matchUpdate st u)) c \<and>
            colContent (grid (matchUpdate st u)) c =
              filter (\<lambda>b. id_b b \<notin> set (selectedIds st)) (colContent (grid st) c)) \<and>
         wf_grid (grid (matchUpdate st u)) \<and>
         wf_grid (grid (fst (sumEffect st u src))) \<and>
         (\<forall>c<GRID_COLS. column (grid (matchUpdate st u)) c =
            replicate (GRID_ROWS - length (colBlocks (grid (matchUpdate st u)) c)) None @
            map Some (colBlocks (grid (matchUpdate st u)) c)) \<and>
         (synced (grid st) \<longrightarrow> synced (grid (matchUpdate st u)))"
proof -
  let ?R = "removeSelected (grid st) (selectedIds st)"
  let ?G = "grid (matchUpdate st u)"
  have t: "10 \<le> getRandomTarget u \<and> getRandomTarget u \<le> 25"
    using getRandomTarget_range [OF assms(3,4)] by (simp add: TARGET_MIN_def TARGET_MAX_def)
  have wf: "wf_grid ?R"
    using assms(5) by (simp add: wf_removeSelected)
  have 6: "?G = fst (applyGravity ?R)"
    by (simp add: matchUpdate_def)
  have 8: "wf_grid ?G" using wf by (simp only: 6 wf_applyGravity)
  have cols: "settled ?G c \<and>
            colContent ?G c = filter (\<lambda>b. id_b b \<notin> set (selectedIds st)) (colContent (grid st) c)"
    if "c < GRID_COLS" for c
    using that wf assms(5)
    by (simp add: matchUpdate_fields applyGravity_settled applyGravity_colContent
        colContent_removeSelected)
  note m = sumEffect_match [OF assms(1,2)]
  have 1: "snd (sumEffect st u src) = None" by (simp add: m)
  have 2: "score (fst (sumEffect st u src)) =
           score st + 10 * int (length (selectedBlocks (grid st) (selectedIds st)))"
    by (simp add: m matchUpdate_def)
  have 3: "10 \<le> target (fst (sumEffect st u src))" "target (fst (sumEffect st u src)) \<le> 25"
    using t by (simp_all add: m matchUpdate_def)
  have 4: "selectedIds (fst (sumEffect st u src)) = []" by (simp add: m matchUpdate_def)
  have 5: "grid (fst (sumEffect st u src)) =
           (if mode st = Some CLASSIC \<and> \<not> topRowOccupied ?G
            then addRowGrid src ?G else ?G)"
    by (simp add: m addRow_grid matchUpdate_currentSum)
  have 7: "\<forall>c<GRID_COLS. settled ?G c \<and>
            colContent ?G c = filter (\<lambda>b. id_b b \<notin> set (selectedIds st)) (colContent (grid st) c)"
    using cols by blast
  have 9: "wf_grid (grid (fst (sumEffect st u src)))"
    using 8 by (simp add: 5 wf_addRowGrid)
  have 10: "\<forall>c<GRID_COLS. column ?G c =
            replicate (GRID_ROWS - length (colBlocks ?G c)) None @ map Some (colBlocks ?G c)"
    using cols settled_column [OF 8] by blast
  have 11: "synced (grid st) \<longrightarrow> synced ?G"
  proof
    assume "synced (grid st)"
    with assms(5) have "wf_grid ?R \<and> synced ?R"
      by (simp add: wf_removeSelected synced_removeSelected)
    then have "wf_grid (fst (applyGravity ?R)) \<and> synced (fst (applyGravity ?R))"
      by (rule applyGravity_synced)
    then show "synced ?G" by (simp only: 6)
  qed
  show ?thesis
    by (intro conjI 1 2 3 4 5 6 7 8 9 10 11 blocks_removeSelected removed_count)
qed

theorem match_clears_witness:
  "selSum (grid (demoState TIME [''a5'', ''b3''])) (selectedIds (demoState TIME [''a5'', ''b3''])) =
     target (demoState TIME [''a5'', ''b3'']) \<and>
   wf_grid (grid (demoState TIME [''a5'', ''b3''])) \<and>
   snd (sumEffect (demoState TIME [''a5'', ''b3'']) (1 / 2) noDraw) = None \<and>
   score (fst (sumEffect (demoState TIME [''a5'', ''b3'']) (1 / 2) noDraw)) = 50 \<and>
   10 \<le> target (fst (sumEffect (demoState TIME [''a5'', ''b3'']) (1 / 2) noDraw)) \<and>
   target (fst (sumEffect (demoState TIME [''a5'', ''b3'']) (1 / 2) noDraw)) \<le> 25 \<and>
   selectedIds (fst (sumEffect (demoState TIME [''a5'', ''b3'']) (1 / 2) noDraw)) = [] \<and>
   wf_grid (grid (fst (sumEffect (demoState TIME [''a5'', ''b3'']) (1 / 2) noDraw))) \<and>
   grid (fst (sumEffect (demoState TIME [''a5'', ''b3'']) (1 / 2) noDraw)) ! 0 ! 0 = None \<and>
   grid (fst (sumEffect (demoState TIME [''a5'', ''b3'']) (1 / 2) noDraw)) ! 2 ! 0 =
     Some (mk ''a1'' 1 2 0) \<and>
   grid (fst (sumEffect (demoState TIME [''a5'', ''b3'']) (1 / 2) noDraw)) ! 5 ! 0 =
     Some (mk ''a4'' 1 5 0) \<and>
   grid (fst (sumEffect (demoState TIME [''a5'', ''b3'']) (1 / 2) noDraw)) ! 9 ! 3 = None"
proof -
  let ?D = "demoState TIME [''a5'', ''b3'']"
  have h: "selSum (grid ?D) (selectedIds ?D) = target ?D" "target ?D \<noteq> 0" "wf_grid (grid ?D)"
    by (simp_all add: demoState_def demo_sum_fall wf_demoGrid)
  have u: "(0::real) \<le> 1 / 2" "(1::real) / 2 < 1" by simp_all
  have g: "grid (matchUpdate ?D (1 / 2)) = fst (applyGravity (removeSelected demoGrid [''a5'', ''b3'']))"
    by (simp add: matchUpdate_def demoState_def)
  have n: "score ?D = 30" "mode ?D = Some TIME"
    by (simp_all add: demoState_def)
  have d: "grid ?D = demoGrid" "selectedIds ?D = [''a5'', ''b3'']"
    by (simp_all add: demoState_def)
  note t = match_clears [OF h(1,2) u h(3), of noDraw]
  have 1: "snd (sumEffect ?D (1 / 2) noDraw) = None"
    "score (fst (sumEffect ?D (1 / 2) noDraw)) = 50"
    "10 \<le> target (fst (sumEffect ?D (1 / 2) noDraw))"
    "target (fst (sumEffect ?D (1 / 2) noDraw)) \<le> 25"
    "selectedIds (fst (sumEffect ?D (1 / 2) noDraw)) = []"
    "wf_grid (grid (fst (sumEffect ?D (1 / 2) noDraw)))"
    "grid (fst (sumEffect ?D (1 / 2) noDraw)) = fst (applyGravity (removeSelected demoGrid [''a5'', ''b3'']))"
    using t by (simp_all add: n g d demo_selected_fall)
  show ?thesis
    using h(1,3) 1(1-6) by (simp add: 1(7) demo_fall_cells)
qed

text \<open>
  Claim C5, as the code has it.  In classic mode the state after a match is the one
  \<open>addRow\<close> makes of the match's updates.  When the top row is occupied after removal and
  gravity, that state has \<open>isGameOver\<close> set and the grid of the match without a new row.
  The score of the match (10 for each block) and the new target are written all the
  same: \<open>setScore\<close> and \<open>setTarget\<close> are queued before \<open>addRow\<close> is called.  The game does
  not go on from this state: a click on a block and a tick leave it as it is.
\<close>

theorem classic_escalation:
  assumes "mode st = Some CLASSIC" and "selSum (grid st) (selectedIds st) = target st"
    and "target st \<noteq> 0"
  shows "fst (sumEffect st u src) = addRow (matchUpdate (st\<lparr>currentSum := target st\<rparr>) u) src \<and>
         (topRowOccupied (grid (matchUpdate st u)) \<longrightarrow>
            isGameOver (fst (sumEffect st u src)) \<and>
            grid (fst (sumEffect st u src)) = grid (matchUpdate st u) \<and>
            score (fst (sumEffect st u src)) =
              score st + 10 * int (length (selectedBlocks (grid st) (selectedIds st))) \<and>
            target (fst (sumEffect st u src)) = getRandomTarget u \<and>
            step (fst (sumEffect st u src)) (Click i) = fst (sumEffect st u src) \<and>
            step (fst (sumEffect st u src)) (Tick src') = fst (sumEffect st u src))"
  using assms
  by (simp add: sumEffect_match [OF assms(2,3)] matchUpdate_fields matchUpdate_currentSum
      addRow_grid addRow_isGameOver handleBlockClick_def timerActive_def)

theorem classic_escalation_witness:
  "mode (demoState CLASSIC [''b1'', ''b2'']) = Some CLASSIC \<and>
   selSum (grid (demoState CLASSIC [''b1'', ''b2''])) (selectedIds (demoState CLASSIC [''b1'', ''b2''])) =
     target (demoState CLASSIC [''b1'', ''b2'']) \<and>
   topRowOccupied (grid (matchUpdate (demoState CLASSIC [''b1'', ''b2'']) 0)) \<and>
   isGameOver (fst (sumEffect (demoState CLASSIC [''b1'', ''b2'']) 0 noDraw)) \<and>
   grid (fst (sumEffect (demoState CLASSIC [''b1'', ''b2'']) 0 noDraw)) =
     grid (matchUpdate (demoState CLASSIC [''b1'', ''b2'']) 0) \<and>
   score (fst (sumEffect (demoState CLASSIC [''b1'', ''b2'']) 0 noDraw)) = 50"
proof -
  let ?D = "demoState CLASSIC [''b1'', ''b2'']"
  have h: "mode ?D = Some CLASSIC" "selSum (grid ?D) (selectedIds ?D) = target ?D" "target ?D \<noteq> 0"
    by (simp_all add: demoState_def demo_sum_match)
  have top: "topRowOccupied (grid (matchUpdate ?D 0))"
    by (simp add: matchUpdate_def demoState_def demo_match_top)
  have n: "length (selectedBlocks (grid ?D) (selectedIds ?D)) = 2" "score ?D = 30"
    by (simp_all add: demoState_def demo_selected_match)
  note t = classic_escalation [OF h, where u = 0 and src = noDraw and i = "''a0''" and src' = noDraw]
  from t [THEN conjunct2, rule_format, OF top] top h(1,2) show ?thesis
    by (simp add: n)
qed

text \<open>
  In the sample position in classic mode, the blocks \<open>b1\<close> and \<open>b2\<close> make the target
  10 while column 0 stays full: the game is over, and the score has gone from 30 to 50
  and the target from 10 to 18.
\<close>

theorem classic_escalation_counterexample:
  "mode (demoState CLASSIC [''b1'', ''b2'']) = Some CLASSIC \<and>
   selSum (grid (demoState CLASSIC [''b1'', ''b2''])) (selectedIds (demoState CLASSIC [''b1'', ''b2''])) =
     target (demoState CLASSIC [''b1'', ''b2'']) \<and>
   topRowOccupied (grid (matchUpdate (demoState CLASSIC [''b1'', ''b2'']) (1 / 2))) \<and>
   isGameOver (fst (sumEffect (demoState CLASSIC [''b1'', ''b2'']) (1 / 2) noDraw)) \<and>
   score (demoState CLASSIC [''b1'', ''b2'']) = 30 \<and>
   score (fst (sumEffect (demoState CLASSIC [''b1'', ''b2'']) (1 / 2) noDraw)) = 50 \<and>
   target (demoState CLASSIC [''b1'', ''b2'']) = 10 \<and>
   target (fst (sumEffect (demoState CLASSIC [''b1'', ''b2'']) (1 / 2) noDraw)) = 18"
proof -
  let ?D = "demoState CLASSIC [''b1'', ''b2'']"
  have h: "mode ?D = Some CLASSIC" "selSum (grid ?D) (selectedIds ?D) = target ?D" "target ?D \<noteq> 0"
    "score ?D = 30" "target ?D = 10"
    by (simp_all add: demoState_def demo_sum_match)
  have top: "topRowOccupied (grid (matchUpdate ?D (1 / 2)))"
    by (simp add: matchUpdate_def demoState_def demo_match_top)
  have n: "length (selectedBlocks (grid ?D) (selectedIds ?D)) = 2"
    by (simp add: demoState_def demo_selected_match)
  have t: "getRandomTarget (1 / 2) = 18"
    by (simp add: getRandomTarget_def TARGET_MIN_def TARGET_MAX_def)
  have s: "fst (sumEffect ?D (1 / 2) noDraw) =
      addRow (matchUpdate (?D\<lparr>currentSum := target ?D\<rparr>) (1 / 2)) noDraw"
    using h(1) by (simp add: sumEffect_match [OF h(2,3)])
  have 1: "isGameOver (fst (sumEffect ?D (1 / 2) noDraw))"
    using top by (simp add: s addRow_isGameOver matchUpdate_currentSum)
  have 2: "score (fst (sumEffect ?D (1 / 2) noDraw)) = 50"
    using n h(4) by (simp add: s matchUpdate_currentSum matchUpdate_fields)
  have 3: "target (fst (sumEffect ?D (1 / 2) noDraw)) = 18"
    using t by (simp add: s matchUpdate_def)
  from h top 1 2 3 show ?thesis by simp
qed

section \<open>Ten ticks\<close>

text \<open>
  Claim C8.  In time mode, with the timer running and \<open>timeLeft = 10\<close>, ten ticks in a
  row with nothing in between: after \<open>k < 10\<close> of them only \<open>timeLeft\<close> has changed, to
  \<open>10 - k\<close>.  The tenth is one call of \<open>addRow\<close>: afterwards \<open>timeLeft\<close> is 10, score,
  target, selection and mode are as before, and the grid has had one row injected (on a
  grid of 10 rows and 6 columns with an empty top row: every row \<open>r < 9\<close> holds the cells
  of the former row \<open>r + 1\<close>, the bottom row is new, every column holds one block more),
  or, when the top row was occupied, the grid is as before and the game is over.
\<close>

theorem timed_expiry:
  assumes "timerActive st" and "timeLeft st = 10" and "length srcs = 10"
  shows "(\<forall>k<10. run st (map Tick (take k srcs)) = st\<lparr>timeLeft := 10 - int k\<rparr>) \<and>
         run st (map Tick srcs) = addRow st (srcs ! 9) \<and>
         timeLeft (run st (map Tick srcs)) = 10 \<and>
         score (run st (map Tick srcs)) = score st \<and>
         target (run st (map Tick srcs)) = target st \<and>
         selectedIds (run st (map Tick srcs)) = selectedIds st \<and>
         mode (run st (map Tick srcs)) = mode st \<and>
         isGameOver (run st (map Tick srcs)) = topRowOccupied (grid st) \<and>
         grid (run st (map Tick srcs)) =
           (if topRowOccupied (grid st) then grid st else addRowGrid (srcs ! 9) (grid st)) \<and>
         (wf_grid (grid st) \<and> \<not> topRowOccupied (grid st) \<longrightarrow>
            wf_grid (grid (run st (map Tick srcs))) \<and>
            (\<forall>r<GRID_ROWS - 1. \<forall>c<GRID_COLS.
               grid (run st (map Tick srcs)) ! r ! c =
                 map_option (\<lambda>b. b\<lparr>row := r\<rparr>) (grid st ! (r + 1) ! c)) \<and>
            (\<forall>c<GRID_COLS.
               grid (run st (map Tick srcs)) ! (GRID_ROWS - 1) ! c =
                 Some (newBlock ((srcs ! 9) c) (GRID_ROWS - 1) c) \<and>
               colCount (grid (run st (map Tick srcs))) c = Suc (colCount (grid st) c)))"
proof -
  have dec: "\<forall>k<10. run st (map Tick (take k srcs)) = st\<lparr>timeLeft := 10 - int k\<rparr>"
  proof (intro allI impI)
    fix k :: nat assume "k < 10"
    then have "int (length (take k srcs)) < timeLeft st" using assms by simp
    from ticks_decrement [OF assms(1) this]
    show "run st (map Tick (take k srcs)) = st\<lparr>timeLeft := 10 - int k\<rparr>"
      using assms \<open>k < 10\<close> by simp
  qed
  have "take (Suc 9) srcs = take 9 srcs @ [srcs ! 9]"
    using assms(3) by (intro take_Suc_conv_app_nth) simp
  then have sp: "srcs = take 9 srcs @ [srcs ! 9]"
    using assms(3) by simp
  have "int (length (take 9 srcs)) < timeLeft st" using assms by simp
  from ticks_decrement [OF assms(1) this]
  have nine: "run st (map Tick (take 9 srcs)) = st\<lparr>timeLeft := 1\<rparr>" using assms by simp
  have "run st (map Tick srcs) = step (run st (map Tick (take 9 srcs))) (Tick (srcs ! 9))"
    by (subst sp) (simp add: run_def)
  also have "\<dots> = (addRow (st\<lparr>timeLeft := 1\<rparr>) (srcs ! 9))\<lparr>timeLeft := TIME_LIMIT\<rparr>"
    using assms(1) by (simp add: nine tick_def timerActive_def)
  also have "\<dots> = addRow st (srcs ! 9)"
    using assms(1,2) by (simp add: addRow_def Let_def timerActive_def TIME_LIMIT_def)
  finally have ten: "run st (map Tick srcs) = addRow st (srcs ! 9)" .
  have f: "timeLeft (run st (map Tick srcs)) = 10"
    "isGameOver (run st (map Tick srcs)) = topRowOccupied (grid st)"
    using assms(1) by (simp_all add: ten addRow_timeLeft addRow_isGameOver timerActive_def TIME_LIMIT_def)
  have g: "grid (run st (map Tick srcs)) =
           (if topRowOccupied (grid st) then grid st else addRowGrid (srcs ! 9) (grid st))"
    by (simp add: ten addRow_grid)
  have cells: "wf_grid (grid st) \<and> \<not> topRowOccupied (grid st) \<longrightarrow>
            wf_grid (grid (run st (map Tick srcs))) \<and>
            (\<forall>r<GRID_ROWS - 1. \<forall>c<GRID_COLS.
               grid (run st (map Tick srcs)) ! r ! c =
                 map_option (\<lambda>b. b\<lparr>row := r\<rparr>) (grid st ! (r + 1) ! c)) \<and>
            (\<forall>c<GRID_COLS.
               grid (run st (map Tick srcs)) ! (GRID_ROWS - 1) ! c =
                 Some (newBlock ((srcs ! 9) c) (GRID_ROWS - 1) c) \<and>
               colCount (grid (run st (map Tick srcs))) c = Suc (colCount (grid st) c))"
    by (auto simp: g addRowGrid_nth wf_addRowGrid addRowGrid_colCount GRID_ROWS_def)
  show ?thesis
    by (intro conjI dec ten f g cells) (simp_all add: ten)
qed

theorem timed_expiry_witness:
  "timerActive (initGame initialState TIME freshIds 0) \<and>
   timeLeft (initGame initialState TIME freshIds 0) = 10 \<and>
   wf_grid (grid (initGame initialState TIME freshIds 0)) \<and>
   \<not> topRowOccupied (grid (initGame initialState TIME freshIds 0)) \<and>
   run (initGame initialState TIME freshIds 0) (map Tick (take 9 (replicate 10 noDraw))) =
     (initGame initialState TIME freshIds 0)\<lparr>timeLeft := 1\<rparr> \<and>
   timeLeft (run (initGame initialState TIME freshIds 0) (map Tick (replicate 10 noDraw))) = 10 \<and>
   \<not> isGameOver (run (initGame initialState TIME freshIds 0) (map Tick (replicate 10 noDraw))) \<and>
   grid (run (initGame initialState TIME freshIds 0) (map Tick (replicate 10 noDraw))) ! 9 ! 0 =
     Some (newBlock (noDraw 0) 9 0) \<and>
   grid (run (initGame initialState TIME freshIds 0) (map Tick (replicate 10 noDraw))) ! 8 ! 0 =
     Some (newBlock (freshIds 9 0) 8 0) \<and>
   grid (run (initGame initialState TIME freshIds 0) (map Tick (replicate 10 noDraw))) ! 5 ! 0 =
     Some (newBlock (freshIds 6 0) 5 0)"
proof -
  let ?S = "initGame initialState TIME freshIds 0"
  let ?F = "run ?S (map Tick (replicate 10 noDraw))"
  have a: "timerActive ?S" "timeLeft ?S = 10"
    by (simp_all add: timerActive_def initGame_def TIME_LIMIT_def)
  have l: "length (replicate 10 noDraw) = 10" by simp
  have g: "grid ?S = initGrid freshIds" by (simp add: initGame_def)
  have b: "wf_grid (grid ?S)" "\<not> topRowOccupied (grid ?S)"
    by (simp_all add: g wf_initGrid top_initGrid)
  have old: "initGrid freshIds ! 9 ! 0 = Some (newBlock (freshIds 9 0) 9 0)"
    "initGrid freshIds ! 6 ! 0 = Some (newBlock (freshIds 6 0) 6 0)"
    by (simp_all add: initGrid_nth GRID_ROWS_def GRID_COLS_def INITIAL_ROWS_def)
  note t = timed_expiry [OF a l]
  from t have nine: "run ?S (map Tick (take 9 (replicate 10 noDraw))) = ?S\<lparr>timeLeft := 1\<rparr>"
    by (simp only: conjunct1 [OF t, rule_format, of 9]) simp
  from t have tl: "timeLeft ?F = 10" and go: "isGameOver ?F = topRowOccupied (grid ?S)" by blast+
  from t b have cells:
    "\<forall>r<GRID_ROWS - 1. \<forall>c<GRID_COLS.
       grid ?F ! r ! c = map_option (\<lambda>b. b\<lparr>row := r\<rparr>) (grid ?S ! (r + 1) ! c)"
    "\<forall>c<GRID_COLS. grid ?F ! (GRID_ROWS - 1) ! c = Some (newBlock ((replicate 10 noDraw ! 9) c) (GRID_ROWS - 1) c) \<and>
       colCount (grid ?F) c = Suc (colCount (grid ?S) c)"
    by blast+
  have c9: "grid ?F ! 9 ! 0 = Some (newBlock (noDraw 0) 9 0)"
    using cells(2) [rule_format, of 0] by (simp add: GRID_ROWS_def GRID_COLS_def)
  have c8: "grid ?F ! 8 ! 0 = Some (newBlock (freshIds 9 0) 8 0)"
    using cells(1) [rule_format, of 8 0] by (simp add: GRID_ROWS_def GRID_COLS_def g old newBlock_def)
  have c5: "grid ?F ! 5 ! 0 = Some (newBlock (freshIds 6 0) 5 0)"
    using cells(1) [rule_format, of 5 0] by (simp add: GRID_ROWS_def GRID_COLS_def g old newBlock_def)
  from a b nine tl go c9 c8 c5 show ?thesis by simp
qed

end
